theory Spec2Isabelle
  imports Main "HOL-Library.Multiset"
begin

section \<open>Common JavaScript notions\<close>

text \<open>
  A thrown \<open>Error\<close> is a value carrying its message. An \<open>async\<close> function that
  throws returns a rejected promise; the models below return \<open>Inl\<close> of the error for
  that, and \<open>Inr\<close> of the value the promise is fulfilled with otherwise. The outcome of
  a promise of the host that the code awaits is taken as an argument of the model, settled
  one way or the other.
\<close>

datatype error = Error string

fun message :: "error \<Rightarrow> string" where
  "message (Error m) = m"

text \<open>\<open>xs[0]\<close> of JavaScript: \<open>undefined\<close> on the empty array.\<close>

fun first :: "'a list \<Rightarrow> 'a option" where
  "first [] = None"
| "first (x # xs) = Some x"

text \<open>
  \<open>Array.prototype.sort\<close> with a comparator is stable. \<open>insort_cmp\<close> puts an element
  before the first one it does not compare greater than; folding from the right keeps
  elements that compare equal in their order.
\<close>

fun insort_cmp :: "('a \<Rightarrow> 'a \<Rightarrow> int) \<Rightarrow> 'a \<Rightarrow> 'a list \<Rightarrow> 'a list" where
  "insort_cmp cmp x [] = [x]"
| "insort_cmp cmp x (y # ys) =
     (if cmp x y \<le> 0 then x # y # ys else y # insort_cmp cmp x ys)"

definition sort_cmp :: "('a \<Rightarrow> 'a \<Rightarrow> int) \<Rightarrow> 'a list \<Rightarrow> 'a list" where
  "sort_cmp cmp xs = foldr (insort_cmp cmp) xs []"

text \<open>
  The own properties of an ordinary object, as \<open>Object.entries\<close> lists them: first the
  keys that are array indices (the decimal numerals of the integers below \<open>2^32 - 1\<close>,
  without leading zeros) in ascending order, then the other keys in the order in which
  they were added. \<open>objectSet\<close> is the assignment \<open>obj[key] = val\<close>.
\<close>

definition charCode :: "char \<Rightarrow> nat" where
  "charCode c = of_char c"

definition isDigit :: "char \<Rightarrow> bool" where
  "isDigit c = (48 \<le> charCode c \<and> charCode c \<le> 57)"

definition digitsValue :: "string \<Rightarrow> nat" where
  "digitsValue s = foldl (\<lambda>n c. 10 * n + (charCode c - 48)) 0 s"

definition isArrayIndex :: "string \<Rightarrow> bool" where
  "isArrayIndex s =
     (s \<noteq> [] \<and> list_all isDigit s \<and> (s = ''0'' \<or> hd s \<noteq> CHR ''0'')
      \<and> digitsValue s < 4294967295)"

fun insertIndexKey :: "string \<Rightarrow> 'v \<Rightarrow> (string \<times> 'v) list \<Rightarrow> (string \<times> 'v) list" where
  "insertIndexKey key val [] = [(key, val)]"
| "insertIndexKey key val ((k, v) # rest) =
     (if isArrayIndex k \<and> digitsValue k < digitsValue key
      then (k, v) # insertIndexKey key val rest
      else (key, val) # (k, v) # rest)"

definition objectSet :: "string \<Rightarrow> 'v \<Rightarrow> (string \<times> 'v) list \<Rightarrow> (string \<times> 'v) list" where
  "objectSet key val obj =
     (if map_of obj key \<noteq> None
      then map (\<lambda>(k, v). if k = key then (k, val) else (k, v)) obj
      else if isArrayIndex key then insertIndexKey key val obj
      else obj @ [(key, val)])"

section \<open>The editor override service (editorOverrideService.ts)\<close>

subsection \<open>Data\<close>

type_synonym URI = string

text \<open>
  A glob pattern is a string or an \<open>IRelativePattern\<close> object. The keys of a
  JavaScript \<open>Map\<close> compare strings by value and objects by identity, so a relative
  pattern carries the identity of its object.
\<close>

datatype GlobPattern = GlobString string | RelativePattern nat string string

datatype EditorOverride = PICK | DISABLED

datatype OverrideOption = OverrideId string | OverrideEnum EditorOverride

datatype EditorActivation = ACTIVATE | RESTORE | PRESERVE

record IEditorOptions =
  override :: "OverrideOption option"
  preserveFocus :: "bool option"
  activation :: "EditorActivation option"

text \<open>
  An editor input has a resource and a view type, each of which may be \<open>undefined\<close>.
  A diff editor input holds an original and a modified input and has neither resource
  nor view type of its own.
\<close>

datatype IEditorInput =
    EditorInput "URI option" "string option"
  | DiffEditorInput IEditorInput IEditorInput

fun resource :: "IEditorInput \<Rightarrow> URI option" where
  "resource (EditorInput r v) = r"
| "resource (DiffEditorInput original modified) = None"

fun viewType :: "IEditorInput \<Rightarrow> string option" where
  "viewType (EditorInput r v) = v"
| "viewType (DiffEditorInput original modified) = None"

type_synonym IEditorGroup = nat

type_synonym IEditorInputWithOptions = "IEditorInput \<times> IEditorOptions option"

type_synonym IEditorInputWithOptionsAndGroup =
  "IEditorInput \<times> IEditorOptions option \<times> IEditorGroup"

record 'p ContributedEditorInfo =
  info_id :: string
  label :: string
  priority :: 'p
  describes :: "IEditorInput \<Rightarrow> bool"

text \<open>
  \<open>singlePerResource\<close> and \<open>canHandleDiff\<close> are a boolean or a function returning
  one; the model holds the boolean either gives.
\<close>

record ContributionPointOptions =
  singlePerResource :: "bool option"
  canHandleDiff :: "bool option"
  canSupportResource :: "(URI \<Rightarrow> bool) option"

record 'p ContributionPoint =
  globPattern :: GlobPattern
  editorInfo :: "'p ContributedEditorInfo"
  options :: "ContributionPointOptions option"
  createEditorInput ::
    "URI \<Rightarrow> IEditorOptions option \<Rightarrow> IEditorGroup \<Rightarrow> IEditorInputWithOptions"
  createDiffEditorInput ::
    "(IEditorInput \<Rightarrow> IEditorOptions option \<Rightarrow> IEditorGroup \<Rightarrow> IEditorInputWithOptions) option"

record EditorAssociation =
  assoc_viewType :: string
  filenamePattern :: string

text \<open>
  The service: the map of contribution points (a \<open>Map\<close> keeps its keys in insertion
  order), the cache of glob patterns read at startup, and the value of the setting
  \<open>workbench.editorAssociations\<close>, an object from file name patterns to view types,
  as \<open>Object.entries\<close> lists it.
\<close>

record 'p EditorOverrideService =
  contributionPoints :: "(GlobPattern \<times> 'p ContributionPoint list) list"
  cache :: "string list option"
  editorAssociations :: "(string \<times> string) list"

text \<open>
  What \<open>editorOverrideService.ts\<close> imports from
  \<open>vs/workbench/services/editor/common/editorOverrideService\<close>, a module outside the
  files modelled here: the glob matcher, the rank of a priority, the priorities
  \<open>exclusive\<close> and \<open>builtin\<close> of the enumeration \<open>ContributedEditorPriority\<close> and
  the id of the default text editor. They are parameters of the model.
\<close>

record 'p Imports =
  globMatchesResource :: "GlobPattern \<Rightarrow> URI \<Rightarrow> bool"
  priorityToRank :: "'p \<Rightarrow> int"
  exclusive :: 'p
  builtin :: 'p
  DEFAULT_EDITOR_ASSOCIATION_id :: string

subsection \<open>Registration and lookup\<close>

definition registerContributionPoint ::
  "'p ContributionPoint \<Rightarrow> 'p EditorOverrideService \<Rightarrow> 'p EditorOverrideService" where
  "registerContributionPoint cp svc =
     (let points = (if map_of (contributionPoints svc) (globPattern cp) = None
                    then contributionPoints svc @ [(globPattern cp, [])]
                    else contributionPoints svc)
      in svc\<lparr>contributionPoints :=
           map (\<lambda>(key, cps). if key = globPattern cp then (key, cps @ [cp]) else (key, cps))
             points\<rparr>)"

definition getAllUserAssociations :: "'p EditorOverrideService \<Rightarrow> EditorAssociation list" where
  "getAllUserAssociations svc =
     map (\<lambda>(key, val). \<lparr>assoc_viewType = val, filenamePattern = key\<rparr>) (editorAssociations svc)"

definition allContributions :: "'p EditorOverrideService \<Rightarrow> 'p ContributionPoint list" where
  "allContributions svc = concat (map snd (contributionPoints svc))"

definition getAssociationsForResource ::
  "'p Imports \<Rightarrow> 'p EditorOverrideService \<Rightarrow> URI \<Rightarrow> EditorAssociation list" where
  "getAssociationsForResource I svc res =
     (let associations = getAllUserAssociations svc;
          matchingAssociations =
            filter (\<lambda>association. filenamePattern association \<noteq> [] \<and>
                      globMatchesResource I (GlobString (filenamePattern association)) res)
              associations
      in filter (\<lambda>association.
                   find (\<lambda>c. info_id (editorInfo c) = assoc_viewType association)
                     (allContributions svc) \<noteq> None)
           matchingAssociations)"

definition findMatchingContributions ::
  "'p Imports \<Rightarrow> 'p EditorOverrideService \<Rightarrow> URI \<Rightarrow> 'p ContributionPoint list" where
  "findMatchingContributions I svc res =
     (let userSettings = getAssociationsForResource I svc res;
          contributions =
            concat (map (\<lambda>(key, cps).
                filter (\<lambda>contributionPoint.
                    find (\<lambda>setting. assoc_viewType setting = info_id (editorInfo contributionPoint))
                      userSettings \<noteq> None
                    \<or> globMatchesResource I key res) cps)
              (contributionPoints svc))
      in sort_cmp (\<lambda>a b. priorityToRank I (priority (editorInfo b))
                         - priorityToRank I (priority (editorInfo a))) contributions)"

definition getEditorIds :: "'p Imports \<Rightarrow> 'p EditorOverrideService \<Rightarrow> URI \<Rightarrow> string list" where
  "getEditorIds I svc res =
     map (\<lambda>contribution. info_id (editorInfo contribution)) (findMatchingContributions I svc res)"

definition findMatchingContribPoint ::
  "URI \<Rightarrow> 'p ContributionPoint list \<Rightarrow> string option \<Rightarrow> 'p ContributionPoint option" where
  "findMatchingContribPoint res cps vt =
     find (\<lambda>contribPoint.
        (case options contribPoint of
           Some opts \<Rightarrow>
             (case canSupportResource opts of
                Some supports \<Rightarrow> Some (info_id (editorInfo contribPoint)) = vt \<and> supports res
              | None \<Rightarrow> Some (info_id (editorInfo contribPoint)) = vt)
         | None \<Rightarrow> Some (info_id (editorInfo contribPoint)) = vt)) cps"

text \<open>
  The contributions of at least builtin rank other than the default text editor, in
  the order of \<open>findMatchingContributions\<close>.
\<close>

definition possibleContributionPoints ::
  "'p Imports \<Rightarrow> 'p EditorOverrideService \<Rightarrow> URI \<Rightarrow> 'p ContributionPoint list" where
  "possibleContributionPoints I svc res =
     filter (\<lambda>contribPoint.
         priorityToRank I (priority (editorInfo contribPoint)) \<ge> priorityToRank I (builtin I)
         \<and> info_id (editorInfo contribPoint) \<noteq> DEFAULT_EDITOR_ASSOCIATION_id I)
       (findMatchingContributions I svc res)"

text \<open>
  The local \<open>selectedViewType\<close> of \<open>getContributionPoint\<close>. \<open>a || b\<close> takes \<open>b\<close> when
  \<open>a\<close> is \<open>undefined\<close> or the empty string.
\<close>

definition selectedViewType ::
  "'p Imports \<Rightarrow> 'p EditorOverrideService \<Rightarrow> URI \<Rightarrow> string option" where
  "selectedViewType I svc res =
     (let associationsFromSetting = getAssociationsForResource I svc res;
          possible = possibleContributionPoints I svc res
      in if map_option (\<lambda>c. priority (editorInfo c)) (first possible) = Some (exclusive I)
         then map_option (\<lambda>c. info_id (editorInfo c)) (first possible)
         else (case map_option assoc_viewType (first associationsFromSetting) of
                 Some v \<Rightarrow> if v \<noteq> [] then Some v
                           else map_option (\<lambda>c. info_id (editorInfo c)) (first possible)
               | None \<Rightarrow> map_option (\<lambda>c. info_id (editorInfo c)) (first possible)))"

text \<open>
  \<open>getContributionPoint\<close> returns the contribution point and whether another default
  conflicted with it. An override that is \<open>undefined\<close> or the empty string is no override.
\<close>

definition getContributionPoint ::
  "'p Imports \<Rightarrow> 'p EditorOverrideService \<Rightarrow> URI \<Rightarrow> string option
     \<Rightarrow> 'p ContributionPoint option \<times> bool" where
  "getContributionPoint I svc res ovr =
     (if ovr \<noteq> None \<and> ovr \<noteq> Some []
      then (findMatchingContribPoint res (allContributions svc) ovr, False)
      else
        (let contributionPoints = findMatchingContributions I svc res;
             associationsFromSetting = getAssociationsForResource I svc res;
             possible = possibleContributionPoints I svc res;
             conflictingDefault = (length associationsFromSetting = 0 \<and> length possible > 1)
         in (findMatchingContribPoint res contributionPoints (selectedViewType I svc res),
             conflictingDefault)))"

subsection \<open>Resolving an override\<close>

text \<open>
  \<open>updateUserAssociations\<close> builds a new object from the associations the setting
  holds and the new one, in this order, passing over those with an empty pattern, and
  stores it as the setting.
\<close>

definition updateUserAssociations ::
  "string \<Rightarrow> string \<Rightarrow> 'p EditorOverrideService \<Rightarrow> 'p EditorOverrideService" where
  "updateUserAssociations pat editorID svc =
     (let newAssociation = \<lparr>assoc_viewType = editorID, filenamePattern = pat\<rparr>;
          currentAssociations = getAllUserAssociations svc;
          newSettingObject =
            foldl (\<lambda>obj association.
                     if filenamePattern association \<noteq> []
                     then objectSet (filenamePattern association) (assoc_viewType association) obj
                     else obj)
              [] (currentAssociations @ [newAssociation])
      in svc\<lparr>editorAssociations := newSettingObject\<rparr>)"

definition resourceMatchesCache ::
  "'p Imports \<Rightarrow> 'p EditorOverrideService \<Rightarrow> URI \<Rightarrow> bool" where
  "resourceMatchesCache I svc res =
     (case cache svc of
        None \<Rightarrow> False
      | Some entries \<Rightarrow>
          find (\<lambda>cacheEntry. globMatchesResource I (GlobString cacheEntry) res) entries \<noteq> None)"

text \<open>
  What the host answers while an override is resolved: how the awaited promise
  \<open>whenInstalledExtensionsRegistered\<close> settles; how the picker dialogue of
  \<open>doPickEditorOverride\<close> ends (the options and group picked, if any, and the
  association the dialogue stored in the settings, if any); how the awaited
  \<open>doHandleConflictingDefaults\<close> settles. Telemetry, notifications and the closing of
  editors that are already open leave no trace in the result and are not modelled.
\<close>

record Host =
  whenInstalledExtensionsRegistered :: "error + unit"
  pickEditorOverride ::
    "error + ((IEditorOptions \<times> IEditorGroup option) option \<times> (string \<times> string) option)"
  handleConflictingDefaults :: "error + unit"

definition doOverrideEditorInput ::
  "IEditorInput \<Rightarrow> IEditorOptions option \<Rightarrow> IEditorGroup \<Rightarrow> 'p ContributionPoint
     \<Rightarrow> IEditorInputWithOptions option" where
  "doOverrideEditorInput editor opts grp selectedContribution =
     (let opts1 =
            (case opts of
               Some opt \<Rightarrow>
                 (if activation opt = None
                  then Some (opt\<lparr>activation :=
                         (if preserveFocus opt = Some True then Some RESTORE else None)\<rparr>)
                  else Some opt)
             | None \<Rightarrow> None)
      in case editor of
           DiffEditorInput original modified \<Rightarrow>
             (case createDiffEditorInput selectedContribution of
                None \<Rightarrow> None
              | Some create \<Rightarrow> Some (create editor opts1 grp))
         | EditorInput r v \<Rightarrow>
             (let inputWithOptions = createEditorInput selectedContribution (the r) opts1 grp;
                  opts2 = (case snd inputWithOptions of Some opt \<Rightarrow> Some opt | None \<Rightarrow> opts1)
              in Some (fst inputWithOptions, opts2)))"

text \<open>
  \<open>resolveEditorOverride\<close> is \<open>async\<close>: \<open>Inl\<close> is the error its promise is rejected
  with, \<open>Inr\<close> the value it is fulfilled with (\<open>None\<close> for \<open>undefined\<close>). The service
  is returned too, since the picker may have stored an association. \<open>the r\<close> in
  \<open>doOverrideEditorInput\<close> and \<open>the\<close> below stand where the source asserts with
  \<open>!\<close> that the resource is there; both are reached only after the check that it is.
\<close>

definition resolveEditorOverride ::
  "'p Imports \<Rightarrow> Host \<Rightarrow> 'p EditorOverrideService \<Rightarrow> IEditorInput \<Rightarrow> IEditorOptions option
     \<Rightarrow> IEditorGroup
     \<Rightarrow> (error + IEditorInputWithOptionsAndGroup option) \<times> 'p EditorOverrideService" where
  "resolveEditorOverride I host svc editor opts grp =
     (case (if cache svc \<noteq> None \<and> resource editor \<noteq> None
               \<and> resourceMatchesCache I svc (the (resource editor))
            then whenInstalledExtensionsRegistered host else Inr ()) of
        Inl e \<Rightarrow> (Inl e, svc)
      | Inr u \<Rightarrow>
        if map_option override opts = Some (Some (OverrideEnum DISABLED))
        then (Inl (Error ''Calling resolve editor override when override is explicitly disabled!''), svc)
        else if (case editor of
                   DiffEditorInput original modified \<Rightarrow>
                     resource modified = None \<or> resource original = None
                 | EditorInput r v \<Rightarrow> r = None)
        then (Inr (Some (editor, opts, grp)), svc)
        else
          (let ovr0 = (case map_option override opts of
                         Some (Some (OverrideId s)) \<Rightarrow> Some s
                       | _ \<Rightarrow> viewType editor);
               picking =
                 (if map_option override opts = Some (Some (OverrideEnum PICK))
                  then (case pickEditorOverride host of
                          Inl e \<Rightarrow> Inl e
                        | Inr (picked, stored) \<Rightarrow>
                            (let svc1 = (case stored of
                                           Some (pat, editorID) \<Rightarrow>
                                             updateUserAssociations pat editorID svc
                                         | None \<Rightarrow> svc)
                             in case picked of
                                  None \<Rightarrow> Inr (None, svc1)
                                | Some (pickedOptions, pickedGroup) \<Rightarrow>
                                    Inr (Some
                                      ((case override pickedOptions of
                                          Some (OverrideId s) \<Rightarrow> Some s
                                        | _ \<Rightarrow> None),
                                       Some pickedOptions,
                                       (case pickedGroup of Some g \<Rightarrow> g | None \<Rightarrow> grp)),
                                      svc1)))
                  else Inr (Some (ovr0, opts, grp), svc))
           in case picking of
                Inl e \<Rightarrow> (Inl e, svc)
              | Inr (None, svc1) \<Rightarrow> (Inr None, svc1)
              | Inr (Some (ovr, opts1, grp1), svc1) \<Rightarrow>
                  (let res = (case editor of
                                DiffEditorInput original modified \<Rightarrow> the (resource modified)
                              | EditorInput r v \<Rightarrow> the r);
                       (contributionPoint, conflictingDefault) =
                          getContributionPoint I svc1 res ovr
                   in case contributionPoint of
                        None \<Rightarrow> (Inr (Some (editor, opts1, grp1)), svc1)
                      | Some selectedContribution \<Rightarrow>
                          (let handlesDiff =
                                 (case options selectedContribution of
                                    Some opt \<Rightarrow> canHandleDiff opt | None \<Rightarrow> None)
                           in if (case editor of DiffEditorInput original modified \<Rightarrow> True
                                   | EditorInput r v \<Rightarrow> False) \<and> handlesDiff = Some False
                              then (Inr (Some (editor, opts1, grp1)), svc1)
                              else if describes (editorInfo selectedContribution) editor
                              then (Inr None, svc1)
                              else
                                (case doOverrideEditorInput editor opts1 grp1
                                        selectedContribution of
                                   None \<Rightarrow> (Inr None, svc1)
                                 | Some (inputEditor, inputOptions) \<Rightarrow>
                                     (case (if conflictingDefault
                                            then handleConflictingDefaults host else Inr ()) of
                                        Inl e \<Rightarrow> (Inl e, svc1)
                                      | Inr u \<Rightarrow>
                                          (Inr (Some (inputEditor, inputOptions, grp1)),
                                           svc1)))))))"

subsection \<open>The selection as the specification words it\<close>

text \<open>
  The precedence as the specification states it, for comparison with
  \<open>selectedViewType\<close>: the highest-ranked matching contribution if it is exclusive,
  otherwise the view type of the first user association whose pattern matches the
  resource, otherwise the highest-ranked matching contribution of at least builtin
  priority that is not the default text editor.
\<close>

definition selectedViewType_spec ::
  "'p Imports \<Rightarrow> 'p EditorOverrideService \<Rightarrow> URI \<Rightarrow> string option" where
  "selectedViewType_spec I svc res =
     (if map_option (\<lambda>c. priority (editorInfo c)) (first (findMatchingContributions I svc res))
           = Some (exclusive I)
      then map_option (\<lambda>c. info_id (editorInfo c)) (first (findMatchingContributions I svc res))
      else (case first (filter (\<lambda>a. globMatchesResource I (GlobString (filenamePattern a)) res)
                          (getAllUserAssociations svc)) of
              Some a \<Rightarrow> Some (assoc_viewType a)
            | None \<Rightarrow> map_option (\<lambda>c. info_id (editorInfo c))
                        (first (possibleContributionPoints I svc res))))"

text \<open>
  The registered contribution points, each with the glob pattern it is registered under.
\<close>

definition registrations ::
  "'p EditorOverrideService \<Rightarrow> (GlobPattern \<times> 'p ContributionPoint) list" where
  "registrations svc = concat (map (\<lambda>(key, cps). map (Pair key) cps) (contributionPoints svc))"

subsection \<open>An example configuration\<close>

text \<open>
  Values for the examples: a small glob matcher (\<open>*suffix\<close> matches the resources that
  end in the suffix, any other pattern matches itself only), priorities as strings with
  ranks 5, 4, 3 and 1, and a service with two editors and two user associations, the
  first of which names an editor that is not registered.
\<close>

fun simpleGlob :: "GlobPattern \<Rightarrow> URI \<Rightarrow> bool" where
  "simpleGlob (GlobString []) r = False"
| "simpleGlob (GlobString (c # cs)) r =
     (if c = CHR ''*'' then length cs \<le> length r \<and> drop (length r - length cs) r = cs
      else c # cs = r)"
| "simpleGlob (RelativePattern n b p) r = False"

definition exampleImports :: "string Imports" where
  "exampleImports =
     \<lparr>globMatchesResource = simpleGlob,
      priorityToRank = (\<lambda>p. if p = ''exclusive'' then 5 else if p = ''default'' then 4
                            else if p = ''builtin'' then 3 else 1),
      exclusive = ''exclusive'',
      builtin = ''builtin'',
      DEFAULT_EDITOR_ASSOCIATION_id = ''default''\<rparr>"

definition exampleContribution :: "string \<Rightarrow> string \<Rightarrow> string \<Rightarrow> string ContributionPoint" where
  "exampleContribution pat ident prio =
     \<lparr>globPattern = GlobString pat,
      editorInfo = \<lparr>info_id = ident, label = ident, priority = prio,
                    describes = (\<lambda>e. viewType e = Some ident)\<rparr>,
      options = None,
      createEditorInput = (\<lambda>r opts g. (EditorInput (Some r) (Some ident), opts)),
      createDiffEditorInput = None\<rparr>"

definition exampleService :: "string EditorOverrideService" where
  "exampleService =
     \<lparr>contributionPoints =
        [(GlobString ''*.txt'', [exampleContribution ''*.txt'' ''editorA'' ''builtin'']),
         (GlobString ''*.bin'', [exampleContribution ''*.bin'' ''editorB'' ''option''])],
      cache = None,
      editorAssociations = [(''*.txt'', ''missingEditor''), (''*'', ''editorB'')]\<rparr>"

definition exampleHost :: Host where
  "exampleHost =
     \<lparr>whenInstalledExtensionsRegistered = Inr (), pickEditorOverride = Inr (None, None),
      handleConflictingDefaults = Inr ()\<rparr>"

definition disabledOptions :: IEditorOptions where
  "disabledOptions =
     \<lparr>override = Some (OverrideEnum DISABLED), preserveFocus = None, activation = None\<rparr>"

section \<open>The release notes manager (second document of gettingStartedContent.ts)\<close>

subsection \<open>Strings and the regular expressions of the source\<close>

text \<open>
  Strings are lists of 8-bit characters, so the white space of \<open>\s\<close> is what lies
  below 256: tab, line feed, vertical tab, form feed, carriage return, space and the
  no-break space.
\<close>

definition isSpace :: "char \<Rightarrow> bool" where
  "isSpace c = (c \<in> {CHR 0x09, CHR 0x0A, CHR 0x0B, CHR 0x0C, CHR 0x0D, CHR 0x20, CHR 0xA0})"

definition toLower :: "char \<Rightarrow> char" where
  "toLower c = (if 65 \<le> charCode c \<and> charCode c \<le> 90 then char_of (charCode c + 32) else c)"

text \<open>\<open>/^(\d+\.\d+)\./.exec(version)\<close>: the first group of the match, if there is one.\<close>

definition versionMatch :: "string \<Rightarrow> string option" where
  "versionMatch version =
     (let major = takeWhile isDigit version; rest1 = dropWhile isDigit version
      in if major = [] then None
         else (case rest1 of
                 [] \<Rightarrow> None
               | c # rest2 \<Rightarrow>
                   if c \<noteq> CHR ''.'' then None
                   else (let minor = takeWhile isDigit rest2; rest3 = dropWhile isDigit rest2
                         in if minor = [] then None
                            else (case rest3 of
                                    [] \<Rightarrow> None
                                  | d # rest4 \<Rightarrow>
                                      if d = CHR ''.'' then Some (major @ ''.'' @ minor)
                                      else None))))"

text \<open>\<open>/^#\s/.test(text)\<close>\<close>

fun startsWithHashSpace :: "string \<Rightarrow> bool" where
  "startsWithHashSpace (c # d # rest) = (c = CHR ''#'' \<and> isSpace d)"
| "startsWithHashSpace text = False"

text \<open>
  \<open>text.replace(re, fn)\<close> for a global regular expression \<open>re\<close>. The matcher says
  whether \<open>re\<close> matches at the start of the text it is given, and then how many
  characters the match takes and what the first group holds. The scan goes from left to
  right; a match is replaced by what the function returns for it and the scan goes on
  behind the match. The counter holds how many characters of the last match are still to
  be passed over.
\<close>

type_synonym matcher = "string \<Rightarrow> (nat \<times> string) option"

fun replaceAll :: "matcher \<Rightarrow> (string \<Rightarrow> string \<Rightarrow> string) \<Rightarrow> nat \<Rightarrow> string \<Rightarrow> string" where
  "replaceAll re fn k [] = []"
| "replaceAll re fn (Suc k) (c # cs) = replaceAll re fn k cs"
| "replaceAll re fn 0 (c # cs) =
     (case re (c # cs) of
        Some (n, grp) \<Rightarrow> fn (take n (c # cs)) grp @ replaceAll re fn (n - 1) cs
      | None \<Rightarrow> c # replaceAll re fn 0 cs)"

text \<open>A prefix compared without regard to case, as under the flag \<open>i\<close>.\<close>

definition startsWithIgnoreCase :: "string \<Rightarrow> string \<Rightarrow> bool" where
  "startsWithIgnoreCase pre text =
     (length pre \<le> length text \<and> map toLower (take (length pre) text) = map toLower pre)"

text \<open>The class \<open>[a-z.\d\-]\<close> under the flag \<open>i\<close>, and the class \<open>[^\)]\<close>.\<close>

definition isCommandChar :: "char \<Rightarrow> bool" where
  "isCommandChar c =
     ((97 \<le> charCode (toLower c) \<and> charCode (toLower c) \<le> 122)
      \<or> isDigit c \<or> c = CHR ''.'' \<or> c = CHR ''-'')"

definition isNotParen :: "char \<Rightarrow> bool" where
  "isNotParen c = (c \<noteq> CHR '')'')"

text \<open>
  A reference: an opening, a longest non-empty run of the characters of a class, a
  closing. The run takes every character of the class and the closing starts with a
  character outside the class, so no shorter run can match where the longest does not.
\<close>

definition matchReference :: "string \<Rightarrow> (char \<Rightarrow> bool) \<Rightarrow> string \<Rightarrow> matcher" where
  "matchReference opening cls closing text =
     (if startsWithIgnoreCase opening text
      then (let rest = drop (length opening) text;
                binding = takeWhile cls rest;
                after = dropWhile cls rest
            in if binding \<noteq> [] \<and> startsWithIgnoreCase closing after
               then Some (length opening + length binding + length closing, binding)
               else None)
      else None)"

subsection \<open>Keybindings\<close>

text \<open>
  What the keybinding service and the imported helpers give, all of them from modules
  outside the files modelled here: \<open>lookupKeybinding\<close> returns \<open>undefined\<close> or a keybinding, of which only
  the label (a string or \<open>null\<close>) is used; \<open>KeybindingParser.parseKeybinding\<close>
  returns \<open>null\<close> or a keybinding that \<open>resolveKeybinding\<close> turns into a list of
  resolved keybindings, again taken by their labels; \<open>unassigned\<close> is the localized
  string \<open>nls.localize('unassigned', "unassigned")\<close>; \<open>escape\<close> and
  \<open>escapeMarkdownSyntaxTokens\<close> are the functions of \<open>vs/base/common\<close>.
\<close>

record 'k KeybindingService =
  lookupKeybinding :: "string \<Rightarrow> string option option"
  parseKeybinding :: "string \<Rightarrow> 'k option"
  resolveKeybinding :: "'k \<Rightarrow> string option list"
  unassigned :: string
  escape :: "string \<Rightarrow> string"
  escapeMarkdownSyntaxTokens :: "string \<Rightarrow> string"

text \<open>\<open>label || unassigned\<close>: the label unless it is \<open>null\<close> or empty.\<close>

definition labelOr :: "string option \<Rightarrow> string \<Rightarrow> string" where
  "labelOr l d = (case l of None \<Rightarrow> d | Some s \<Rightarrow> if s = [] then d else s)"

definition escapeMdHtml :: "'k KeybindingService \<Rightarrow> string \<Rightarrow> string" where
  "escapeMdHtml ks text =
     concat (map (\<lambda>c. if c = CHR 0x5C then [CHR 0x5C, CHR 0x5C] else [c]) (escape ks text))"

definition kb :: "'k KeybindingService \<Rightarrow> string \<Rightarrow> string \<Rightarrow> string" where
  "kb ks mtch binding =
     (case lookupKeybinding ks binding of
        None \<Rightarrow> unassigned ks
      | Some keybinding \<Rightarrow> labelOr keybinding (unassigned ks))"

definition kbstyle :: "'k KeybindingService \<Rightarrow> string \<Rightarrow> string \<Rightarrow> string" where
  "kbstyle ks mtch binding =
     (case parseKeybinding ks binding of
        None \<Rightarrow> unassigned ks
      | Some keybinding \<Rightarrow>
          (case resolveKeybinding ks keybinding of
             [] \<Rightarrow> unassigned ks
           | resolved # others \<Rightarrow> labelOr resolved (unassigned ks)))"

definition codeElement :: "'k KeybindingService \<Rightarrow> string \<Rightarrow> string \<Rightarrow> string" where
  "codeElement ks binding resolved =
     (if resolved \<noteq> []
      then ''<code title=\"'' @ binding @ ''\">'' @ escapeMdHtml ks resolved @ ''</code>''
      else resolved)"

definition kbCode :: "'k KeybindingService \<Rightarrow> string \<Rightarrow> string \<Rightarrow> string" where
  "kbCode ks mtch binding = codeElement ks binding (kb ks mtch binding)"

definition kbstyleCode :: "'k KeybindingService \<Rightarrow> string \<Rightarrow> string \<Rightarrow> string" where
  "kbstyleCode ks mtch binding = codeElement ks binding (kbstyle ks mtch binding)"

definition patchKeybindings :: "'k KeybindingService \<Rightarrow> string \<Rightarrow> string" where
  "patchKeybindings ks text =
     replaceAll (matchReference ''kbstyle('' isNotParen '')'')
         (\<lambda>mtch binding. escapeMarkdownSyntaxTokens ks (kbstyle ks mtch binding)) 0
       (replaceAll (matchReference ''kb('' isCommandChar '')'')
           (\<lambda>mtch binding. escapeMarkdownSyntaxTokens ks (kb ks mtch binding)) 0
         (replaceAll (matchReference ''`kbstyle('' isNotParen '')`'') (kbstyleCode ks) 0
           (replaceAll (matchReference ''`kb('' isCommandChar '')`'') (kbCode ks) 0 text)))"

subsection \<open>A text in pieces\<close>

text \<open>
  A text written as a list of pieces: stretches of other text and the four kinds of
  reference that the four patterns of \<open>patchKeybindings\<close> look for. A reference is
  given by its opening as it is written, which the patterns compare without regard to
  case, and its binding. \<open>item_source\<close> is the piece as it is written in the text,
  \<open>item_patched\<close> what the callback that the source gives to \<open>replace\<close> returns for
  the piece as match and its binding as group; a stretch stays as it is.
\<close>

datatype text_item =
    Stretch string
  | KbCodeReference string string
  | KbstyleCodeReference string string
  | KbReference string string
  | KbstyleReference string string

fun item_source :: "text_item \<Rightarrow> string" where
  "item_source (Stretch s) = s"
| "item_source (KbCodeReference written binding) = written @ binding @ '')`''"
| "item_source (KbstyleCodeReference written binding) = written @ binding @ '')`''"
| "item_source (KbReference written binding) = written @ binding @ '')''"
| "item_source (KbstyleReference written binding) = written @ binding @ '')''"

fun item_patched :: "'k KeybindingService \<Rightarrow> text_item \<Rightarrow> string" where
  "item_patched ks (Stretch s) = s"
| "item_patched ks (KbCodeReference written binding) =
     kbCode ks (written @ binding @ '')`'') binding"
| "item_patched ks (KbstyleCodeReference written binding) =
     kbstyleCode ks (written @ binding @ '')`'') binding"
| "item_patched ks (KbReference written binding) =
     escapeMarkdownSyntaxTokens ks (kb ks (written @ binding @ '')'') binding)"
| "item_patched ks (KbstyleReference written binding) =
     escapeMarkdownSyntaxTokens ks (kbstyle ks (written @ binding @ '')'') binding)"

text \<open>A character that is neither an opening parenthesis nor a backtick.\<close>

definition plainChar :: "char \<Rightarrow> bool" where
  "plainChar d = (d \<noteq> CHR ''('' \<and> d \<noteq> CHR 0x60)"

text \<open>
  The pieces whose boundaries the four passes respect. A stretch holds only plain
  characters. A reference opens with \<open>kb(\<close> or \<open>kbstyle(\<close> in either case, after a
  backtick if it stands between backticks. The binding of a \<open>kb\<close> reference is a
  non-empty run of the class \<open>[a-z.\d\-]\<close>, that of a \<open>kbstyle\<close> reference a
  non-empty run of plain characters of the class \<open>[^\)]\<close>. What is put in the place of
  a reference before the last pass holds only plain characters, so that no later pass
  finds a reference in it.
\<close>

fun item_ok :: "'k KeybindingService \<Rightarrow> text_item \<Rightarrow> bool" where
  "item_ok ks (Stretch s) = list_all plainChar s"
| "item_ok ks (KbCodeReference written binding) =
     (map toLower written = ''`kb('' \<and> binding \<noteq> [] \<and> list_all isCommandChar binding
      \<and> list_all plainChar (item_patched ks (KbCodeReference written binding)))"
| "item_ok ks (KbstyleCodeReference written binding) =
     (map toLower written = ''`kbstyle('' \<and> binding \<noteq> []
      \<and> list_all (\<lambda>d. isNotParen d \<and> plainChar d) binding
      \<and> list_all plainChar (item_patched ks (KbstyleCodeReference written binding)))"
| "item_ok ks (KbReference written binding) =
     (map toLower written = ''kb('' \<and> binding \<noteq> [] \<and> list_all isCommandChar binding
      \<and> list_all plainChar (item_patched ks (KbReference written binding)))"
| "item_ok ks (KbstyleReference written binding) =
     (map toLower written = ''kbstyle('' \<and> binding \<noteq> []
      \<and> list_all (\<lambda>d. isNotParen d \<and> plainChar d) binding)"

text \<open>
  The first pass leaves a \<open>kbstyle\<close> reference between backticks in the text. Its
  closing backtick must not be where the pattern of the first pass matches, as it does in
  \<open>`kbstyle(a)`kb(b)`\<close>.
\<close>

fun separated :: "text_item list \<Rightarrow> bool" where
  "separated [] = True"
| "separated (KbstyleCodeReference written binding # items) =
     (matchReference ''`kb('' isCommandChar '')`''
        (CHR 0x60 # concat (map item_source items)) = None
      \<and> separated items)"
| "separated (item # items) = separated items"



subsection \<open>Fetching and caching\<close>

text \<open>
  How a request ends: it fails (the request or the reading of its body throws), or it
  gives a text, which \<open>asText\<close> may return as \<open>null\<close>.
\<close>

datatype response = RequestFailed | Response "string option"

datatype 'a promise = Pending | Fulfilled 'a | Rejected error

definition fetchReleaseNotes :: "'k KeybindingService \<Rightarrow> response \<Rightarrow> error + string" where
  "fetchReleaseNotes ks resp =
     (case resp of
        RequestFailed \<Rightarrow> Inl (Error ''Failed to fetch release notes'')
      | Response None \<Rightarrow> Inl (Error ''Invalid release notes'')
      | Response (Some text) \<Rightarrow>
          if text = [] \<or> \<not> startsWithHashSpace text
          then Inl (Error ''Invalid release notes'')
          else Inr (patchKeybindings ks text))"

text \<open>
  A fetch is the promise that the immediately invoked \<open>async\<close> function of
  \<open>loadReleaseNotes\<close> returns, with the version and the address its closure holds.
\<close>

record fetch =
  fetch_version :: string
  fetch_url :: string
  fetch_state :: "string promise"

record html_document =
  nonce :: string
  css :: string
  body :: string

record WebviewInput =
  wv_name :: string
  wv_html :: html_document

text \<open>
  The manager. Promises are objects: the cache maps a version to the address of a
  fetch in the store \<open>fetches\<close>. \<open>requests\<close> lists the addresses requested from the
  network so far.
\<close>

record ReleaseNotesManager =
  releaseNotesCache :: "(string \<times> nat) list"
  fetches :: "fetch list"
  requests :: "string list"
  lastText :: "string option"
  currentReleaseNotes :: "WebviewInput option"

definition newManager :: ReleaseNotesManager where
  "newManager =
     \<lparr>releaseNotesCache = [], fetches = [], requests = [], lastText = None,
      currentReleaseNotes = None\<rparr>"

definition releaseNotesUrl :: "string \<Rightarrow> string" where
  "releaseNotesUrl versionPrefix =
     ''https://code.visualstudio.com/raw'' @ ''/v''
       @ map (\<lambda>c. if c = CHR ''.'' then CHR ''_'' else c) versionPrefix @ ''.md''"

text \<open>
  \<open>loadReleaseNotes\<close> is \<open>async\<close>: \<open>Inl\<close> is the error it throws, \<open>Inr p\<close> the
  promise its \<open>return\<close> statement gives, whose outcome the promise of the call takes
  on: the one in the cache, which is the new fetch when the version had none. The request
  is sent when the fetch is created.
\<close>

definition loadReleaseNotes ::
  "string \<Rightarrow> ReleaseNotesManager \<Rightarrow> (error + nat) \<times> ReleaseNotesManager" where
  "loadReleaseNotes version m =
     (case versionMatch version of
        None \<Rightarrow> (Inl (Error ''not found''), m)
      | Some versionPrefix \<Rightarrow>
          (let url = releaseNotesUrl versionPrefix
           in (case map_of (releaseNotesCache m) version of
                 None \<Rightarrow>
                   (Inr (length (fetches m)),
                    m\<lparr>releaseNotesCache :=
                        releaseNotesCache m @ [(version, length (fetches m))],
                      fetches := fetches m
                        @ [\<lparr>fetch_version = version, fetch_url = url, fetch_state = Pending\<rparr>],
                      requests := requests m @ [url]\<rparr>)
               | Some p \<Rightarrow> (Inr p, m))))"

text \<open>
  The request of fetch \<open>p\<close> ends: the fetch is fulfilled with the patched text, or the
  entry of its version is deleted from the cache and the fetch is rejected.
\<close>

definition settle ::
  "'k KeybindingService \<Rightarrow> nat \<Rightarrow> response \<Rightarrow> ReleaseNotesManager \<Rightarrow> ReleaseNotesManager" where
  "settle ks p resp m =
     (if p < length (fetches m) \<and> fetch_state (fetches m ! p) = Pending
      then (case fetchReleaseNotes ks resp of
              Inr text \<Rightarrow> m\<lparr>fetches := (fetches m)[p := (fetches m ! p)\<lparr>fetch_state := Fulfilled text\<rparr>]\<rparr>
            | Inl err \<Rightarrow>
                m\<lparr>releaseNotesCache :=
                    filter (\<lambda>(key, q). key \<noteq> fetch_version (fetches m ! p)) (releaseNotesCache m),
                  fetches := (fetches m)[p := (fetches m ! p)\<lparr>fetch_state := Rejected err\<rparr>]\<rparr>)
      else m)"

text \<open>The life of a manager: calls of \<open>loadReleaseNotes\<close> and requests that end.\<close>

datatype notes_event = Load string | Settle nat response

fun notes_step :: "'k KeybindingService \<Rightarrow> ReleaseNotesManager \<Rightarrow> notes_event \<Rightarrow> ReleaseNotesManager" where
  "notes_step ks m (Load version) = snd (loadReleaseNotes version m)"
| "notes_step ks m (Settle p resp) = settle ks p resp m"

definition notes_run :: "'k KeybindingService \<Rightarrow> notes_event list \<Rightarrow> ReleaseNotesManager" where
  "notes_run ks evs = foldl (notes_step ks) newManager evs"

subsection \<open>Showing the release notes\<close>

definition joinLines :: "string list \<Rightarrow> string" where
  "joinLines ls = (case ls of [] \<Rightarrow> [] | l # rest \<Rightarrow> l @ concat (map (\<lambda>x. CHR 0x0A # x) rest))"

text \<open>The template literal of \<open>show\<close>, line by line.\<close>

definition builtinReleaseNotes :: string where
  "builtinReleaseNotes = joinLines
     [[],
      [],
      [CHR 0x09] @ [CHR 0x09] @ ''# January 2021 (version 1.53)'',
      [],
      ''**Update 1.53.1**: The update addresses these security [issues](https://github.com/microsoft/vscode/milestone/143).'',
      [],
      ''<!-- DOWNLOAD_LINKS_PLACEHOLDER -->'',
      [],
      ''---'',
      [],
      ''Welcome to the January 2021 release of Visual Studio Code. There are a number of updates in this version that we hope you will like, some of the key highlights include:'',
      [],
      ''* **[Wrap tabs](#wrap-tabs)** - Wrap editor tabs in the workbench instead of having a scrollbar.'',
      ''* **[Configure tab decorations](#tab-decorations)** - Add editor tab status decorations.'',
      ''* **[Customize search mode](#default-search-mode)** - Use the Search view or open a new Search editor.'',
      ''* **[JavaScript debugging](#javascript-debugger)** - Support for conditional exception breakpoints and Node.js worker_threads.'',
      ''* **[Notebook UX updates](#notebooks)** - Outline view for Notebook cells, and breadcrumbs for improved navigation.'',
      ''* **[Markdown preview image auto update](#markdown-preview-auto-updates-when-images-are-changed-on-disk)** - Preview automatically updates when images change.'',
      ''* **[Emmet improvements](#emmet-performance-and-feature-improvements)** - Faster performance and supporting the latest features.'',
      ''* **[Extension guidelines](#extension-guidelines)** - Documented best practices for extension authors.'',
      ''* **[Remote Development video series](#documentation)** - Learn to create and configure container-based environments.'',
      [],
      ''>If you'd like to read these release notes online, go to [Updates](https://code.visualstudio.com/updates) on [code.visualstudio.com](https://code.visualstudio.com).'',
      [],
      ''**Join us live** at the [VS Code team's livestream](https://code.visualstudio.com/livestream) on Tuesday, February 9 at 8am Pacific (4pm London) to see a demo of what's new in this release, and ask us questions live.'',
      [],
      ''**Insiders:** Want to try new features as soon as possible? You can download the nightly [Insiders](https://code.visualstudio.com/insiders) build and try the latest updates as soon as they are available.'',
      [],
      ''## Workbench'',
      [],
      ''### Wrap tabs'',
      [],
      ''A new setting 'workbench.editor.wrapTabs' lets editor tabs wrap instead of showing a scrollbar.'',
      [],
      ''![Wrapping tabs in editor](images/1_53/tabs-wrap.gif)'',
      ''*Theme: [GitHub Dark Theme](https://marketplace.visualstudio.com/items?itemName=GitHub.github-vscode-theme)*'',
      [],
      ''If the available space for the tabs is too small, wrapping will temporarily turn off, and you will see the old experience with a scrollbar.'',
      [CHR 0x09] @ [CHR 0x09]]"

text \<open>
  What the host gives \<open>show\<close>: how the awaited \<open>renderMarkdownDocument\<close> settles for
  a text, the identifier \<open>generateUuid\<close> returns, the style sheet of the colour map,
  and what the network answers to a request.
\<close>

record ShowHost =
  renderMarkdownDocument :: "string \<Rightarrow> error + string"
  generateUuid :: string
  tokensCSS :: string
  network :: "string \<Rightarrow> response"

text \<open>
  The document \<open>renderBody\<close> returns, by the three parts that vary; the rest of the
  template is constant.
\<close>

definition renderBody :: "ShowHost \<Rightarrow> string \<Rightarrow> error + html_document" where
  "renderBody host text =
     (case renderMarkdownDocument host text of
        Inl e \<Rightarrow> Inl e
      | Inr content \<Rightarrow> Inr \<lparr>nonce = generateUuid host, css = tokensCSS host, body = content\<rparr>)"

text \<open>
  \<open>await this.loadReleaseNotes(version)\<close>: the call, then the outcome of the promise
  once the network has answered.
\<close>

definition awaitLoadReleaseNotes ::
  "'k KeybindingService \<Rightarrow> ShowHost \<Rightarrow> string \<Rightarrow> ReleaseNotesManager
     \<Rightarrow> (error + string) \<times> ReleaseNotesManager" where
  "awaitLoadReleaseNotes ks host version m =
     (case loadReleaseNotes version m of
        (Inl e, m1) \<Rightarrow> (Inl e, m1)
      | (Inr p, m1) \<Rightarrow>
          (let m2 = settle ks p (network host (fetch_url (fetches m1 ! p))) m1
           in (case fetch_state (fetches m2 ! p) of
                 Fulfilled text \<Rightarrow> (Inr text, m2)
               | Rejected e \<Rightarrow> (Inl e, m2)
               | Pending \<Rightarrow> (Inl (Error ''Failed to fetch release notes''), m2))))"

text \<open>
  \<open>show\<close> (the name is a keyword here, hence \<open>showReleaseNotes\<close>). \<open>Inl\<close> is the
  error its promise is rejected with, \<open>Inr\<close> the value it is fulfilled with.
\<close>

definition showReleaseNotes ::
  "'k KeybindingService \<Rightarrow> ShowHost \<Rightarrow> string \<Rightarrow> ReleaseNotesManager
     \<Rightarrow> (error + bool) \<times> ReleaseNotesManager" where
  "showReleaseNotes ks host version m =
     (case (if False then awaitLoadReleaseNotes ks host version m
            else (Inr builtinReleaseNotes, m)) of
        (Inl e, m1) \<Rightarrow> (Inl e, m1)
      | (Inr releaseNoteText, m1) \<Rightarrow>
          (let m2 = m1\<lparr>lastText := Some releaseNoteText\<rparr>
           in case renderBody host releaseNoteText of
                Inl e \<Rightarrow> (Inl e, m2)
              | Inr html \<Rightarrow>
                  (let title = ''Release Notes: '' @ version
                   in (Inr True,
                       m2\<lparr>currentReleaseNotes :=
                            (case currentReleaseNotes m2 of
                               Some w \<Rightarrow> Some (w\<lparr>wv_name := title, wv_html := html\<rparr>)
                             | None \<Rightarrow> Some \<lparr>wv_name = title, wv_html = html\<rparr>)\<rparr>))))"

subsection \<open>What holds of every manager\<close>

text \<open>
  Every version in the cache matches the pattern of versions and maps to a fetch of this
  version; every pending fetch is the one the cache holds for its version.
\<close>

definition notes_inv :: "ReleaseNotesManager \<Rightarrow> bool" where
  "notes_inv m =
     ((\<forall>(v, p) \<in> set (releaseNotesCache m).
         versionMatch v \<noteq> None \<and> p < length (fetches m) \<and> fetch_version (fetches m ! p) = v)
      \<and> (\<forall>p < length (fetches m). fetch_state (fetches m ! p) = Pending \<longrightarrow>
            map_of (releaseNotesCache m) (fetch_version (fetches m ! p)) = Some p))"

subsection \<open>Example values\<close>

text \<open>
  For the examples: the escape functions as \<open>vs/base/common\<close> has them, a keybinding
  service that knows one command and one key chord, and two hosts, one on which
  rendering succeeds and one on which it fails.
\<close>

definition htmlEscape :: "string \<Rightarrow> string" where
  "htmlEscape s =
     concat (map (\<lambda>c. if c = CHR ''<'' then ''&lt;'' else if c = CHR ''>'' then ''&gt;''
                       else if c = CHR ''&'' then ''&amp;'' else [c]) s)"

definition markdownEscape :: "string \<Rightarrow> string" where
  "markdownEscape s =
     concat (map (\<lambda>c. if c \<in> set (CHR 0x5C # ''`*_{}[]()#+-.!'') then [CHR 0x5C, c] else [c]) s)"

definition exampleKeybindings :: "nat KeybindingService" where
  "exampleKeybindings =
     \<lparr>lookupKeybinding =
        (\<lambda>b. if b = ''workbench.action.files.save'' then Some (Some ''Ctrl+S'') else None),
      parseKeybinding = (\<lambda>b. if b = ''Ctrl+K'' then Some 0 else None),
      resolveKeybinding = (\<lambda>k. [Some ''Ctrl+K'']),
      unassigned = ''unassigned'',
      escape = htmlEscape,
      escapeMarkdownSyntaxTokens = markdownEscape\<rparr>"

definition exampleShowHost :: ShowHost where
  "exampleShowHost =
     \<lparr>renderMarkdownDocument = (\<lambda>t. Inr (''<p>'' @ t @ ''</p>'')),
      generateUuid = ''0000'',
      tokensCSS = [],
      network = (\<lambda>url. RequestFailed)\<rparr>"

definition failingShowHost :: ShowHost where
  "failingShowHost =
     exampleShowHost\<lparr>renderMarkdownDocument := (\<lambda>t. Inl (Error ''cannot render''))\<rparr>"

section \<open>The notebook webview preload script (webviewPreloads.ts)\<close>

subsection \<open>The queue of actions per output\<close>

text \<open>
  \<open>outputs\<close> maps an output id to a record object \<open>{ cancelled, queue }\<close>. The queue
  is the last promise of a chain: the first action of a record runs at once, inside the
  executor of a new promise, and every later one is the callback of a \<open>then\<close> on the
  promise before it. A chain is modelled by the action the chain waits on now (an action
  that has started and whose promise is not settled), by whether a promise of the chain
  was rejected, and by the callbacks that were not called yet, oldest first.

  A record stays alive in the closures of its callbacks after it was deleted from the
  map, so the records live in a store and the map holds addresses. An action is named
  by the number of the call of \<open>enqueue\<close> that brought it. The output id of a record,
  the record of an action and the sets of the actions that started, completed and were
  skipped are kept for the statements only; the code does not read them.
\<close>

record output_record =
  cancelled :: bool
  running :: "nat option"
  rejected :: bool
  waiting :: "nat list"
  record_outputId :: string

record outputs_state =
  records :: "output_record list"
  outputs :: "(string \<times> nat) list"
  enqueued :: nat
  owner :: "nat list"
  started :: "nat set"
  completed :: "nat set"
  skipped :: "nat set"

definition initial_outputs :: outputs_state where
  "initial_outputs =
     \<lparr>records = [], outputs = [], enqueued = 0, owner = [], started = {}, completed = {},
      skipped = {}\<rparr>"

text \<open>
  \<open>enqueue(outputId, action)\<close>. Without a record for the id, a record is made and the
  action starts at once; otherwise the action is chained behind the queue of the record.
\<close>

definition enqueue :: "string \<Rightarrow> outputs_state \<Rightarrow> outputs_state" where
  "enqueue outputId s =
     (let action = enqueued s
      in case map_of (outputs s) outputId of
           None \<Rightarrow>
             s\<lparr>records := records s
                  @ [\<lparr>cancelled = False, running = Some action, rejected = False,
                      waiting = [], record_outputId = outputId\<rparr>],
               outputs := outputs s @ [(outputId, length (records s))],
               enqueued := Suc action,
               owner := owner s @ [length (records s)],
               started := insert action (started s)\<rparr>
         | Some r \<Rightarrow>
             s\<lparr>records := (records s)[r := (records s ! r)\<lparr>waiting := waiting (records s ! r) @ [action]\<rparr>],
               enqueued := Suc action,
               owner := owner s @ [r]\<rparr>)"

definition cancelAll :: "outputs_state \<Rightarrow> outputs_state" where
  "cancelAll s =
     s\<lparr>records := foldl (\<lambda>rs r. rs[r := (rs ! r)\<lparr>cancelled := True\<rparr>]) (records s)
                     (map snd (outputs s)),
       outputs := []\<rparr>"

definition cancelOutput :: "string \<Rightarrow> outputs_state \<Rightarrow> outputs_state" where
  "cancelOutput outputId s =
     (case map_of (outputs s) outputId of
        Some r \<Rightarrow>
          s\<lparr>records := (records s)[r := (records s ! r)\<lparr>cancelled := True\<rparr>],
            outputs := filter (\<lambda>(key, q). key \<noteq> outputId) (outputs s)\<rparr>
      | None \<Rightarrow> s)"

text \<open>
  What the promises do. The action a chain waits on completes: its promise is fulfilled.
  Or it throws, or its promise is rejected: then the callbacks behind it are never
  called. Or, the chain waiting on nothing and not rejected, the next callback
  \<open>r => !record.cancelled && action(record)\<close> is called: it starts its action unless the
  record is cancelled.
\<close>

definition actionCompletes :: "nat \<Rightarrow> outputs_state \<Rightarrow> outputs_state" where
  "actionCompletes r s =
     (if r < length (records s)
      then (case running (records s ! r) of
              Some action \<Rightarrow>
                s\<lparr>records := (records s)[r := (records s ! r)\<lparr>running := None\<rparr>],
                  completed := insert action (completed s)\<rparr>
            | None \<Rightarrow> s)
      else s)"

definition actionThrows :: "nat \<Rightarrow> outputs_state \<Rightarrow> outputs_state" where
  "actionThrows r s =
     (if r < length (records s)
      then (case running (records s ! r) of
              Some action \<Rightarrow>
                s\<lparr>records := (records s)[r := (records s ! r)\<lparr>running := None, rejected := True\<rparr>]\<rparr>
            | None \<Rightarrow> s)
      else s)"

definition callbackRuns :: "nat \<Rightarrow> outputs_state \<Rightarrow> outputs_state" where
  "callbackRuns r s =
     (if r < length (records s) \<and> running (records s ! r) = None \<and> \<not> rejected (records s ! r)
      then (case waiting (records s ! r) of
              [] \<Rightarrow> s
            | action # rest \<Rightarrow>
                if cancelled (records s ! r)
                then s\<lparr>records := (records s)[r := (records s ! r)\<lparr>waiting := rest\<rparr>],
                       skipped := insert action (skipped s)\<rparr>
                else s\<lparr>records := (records s)[r := (records s ! r)\<lparr>running := Some action, waiting := rest\<rparr>],
                       started := insert action (started s)\<rparr>)
      else s)"

datatype outputs_event =
    Enqueue string
  | CancelOutput string
  | CancelAll
  | ActionCompletes nat
  | ActionThrows nat
  | CallbackRuns nat

fun outputs_step :: "outputs_state \<Rightarrow> outputs_event \<Rightarrow> outputs_state" where
  "outputs_step s (Enqueue outputId) = enqueue outputId s"
| "outputs_step s (CancelOutput outputId) = cancelOutput outputId s"
| "outputs_step s CancelAll = cancelAll s"
| "outputs_step s (ActionCompletes r) = actionCompletes r s"
| "outputs_step s (ActionThrows r) = actionThrows r s"
| "outputs_step s (CallbackRuns r) = callbackRuns r s"

definition outputs_run :: "outputs_event list \<Rightarrow> outputs_state" where
  "outputs_run evs = foldl outputs_step initial_outputs evs"

text \<open>The output id an action was enqueued for, and whether its record is cancelled.\<close>

definition action_outputId :: "outputs_state \<Rightarrow> nat \<Rightarrow> string" where
  "action_outputId s a = record_outputId (records s ! (owner s ! a))"

definition action_cancelled :: "outputs_state \<Rightarrow> nat \<Rightarrow> bool" where
  "action_cancelled s a = cancelled (records s ! (owner s ! a))"

text \<open>What holds of every state of the queues.\<close>

definition outputs_inv :: "outputs_state \<Rightarrow> bool" where
  "outputs_inv s =
     (length (owner s) = enqueued s
      \<and> (\<forall>a < enqueued s. owner s ! a < length (records s))
      \<and> (\<forall>(key, r) \<in> set (outputs s). r < length (records s))
      \<and> (\<forall>r < length (records s). \<not> cancelled (records s ! r) \<longrightarrow>
            map_of (outputs s) (record_outputId (records s ! r)) = Some r)
      \<and> (\<forall>r < length (records s). \<forall>a \<in> set (waiting (records s ! r)).
            a < enqueued s \<and> owner s ! a = r)
      \<and> (\<forall>r < length (records s). \<forall>a. running (records s ! r) = Some a \<longrightarrow>
            a < enqueued s \<and> owner s ! a = r \<and> (\<forall>w \<in> set (waiting (records s ! r)). a < w))
      \<and> (\<forall>r < length (records s). sorted_wrt (<) (waiting (records s ! r)))
      \<and> (\<forall>a < enqueued s.
            \<not> cancelled (records s ! (owner s ! a)) \<and> \<not> rejected (records s ! (owner s ! a)) \<longrightarrow>
            a \<in> completed s \<or> running (records s ! (owner s ! a)) = Some a
            \<or> a \<in> set (waiting (records s ! (owner s ! a))))
      \<and> (\<forall>a < enqueued s.
            a \<in> started s \<or> a \<in> skipped s \<or> a \<in> set (waiting (records s ! (owner s ! a)))))"

text \<open>
  An action that was enqueued, has not started, and whose record is cancelled.
\<close>

definition never_runs :: "outputs_state \<Rightarrow> nat \<Rightarrow> bool" where
  "never_runs s a =
     (a < enqueued s \<and> a \<notin> started s \<and> cancelled (records s ! (owner s ! a)))"

subsection \<open>The action of an \<open>html\<close> message\<close>

text \<open>
  The part of the document the action writes: the cell containers by id, each with the
  output nodes appended to it. A node holds text, markup set through \<open>innerHTML\<close>, or
  an element with its children. Positions, styles, listeners and the size reports are
  not modelled.
\<close>

datatype node = Text string | RawHtml string | Element string "node list"

record output_node =
  node_id :: string
  children :: "node list"

type_synonym document = "(string \<times> output_node list) list"

text \<open>
  The content of an output is of type \<open>RenderOutputType.Html\<close>, with its markup, or of
  another type, with its mime type.
\<close>

datatype output_content = ContentHtml string | ContentOther string

record html_message =
  outputId :: string
  cellId :: string
  rendererId :: "string option"
  requiredPreloads :: "string list"
  content :: output_content

text \<open>
  What an awaited promise of \<open>preloadsAndErrors\<close> gives, rejections having been turned
  into values by \<open>catch(err => err)\<close>: an \<open>Error\<close> object, or another value, of which
  the action uses a renderer API only (\<open>None\<close> for \<open>undefined\<close> and for any value that
  is not one).
\<close>

datatype 'api awaited = IsError error | Value "'api option"

text \<open>
  What \<open>renderCell\<close> may throw: \<open>null\<close> or \<open>undefined\<close>, or any other value, taken
  by what its property \<open>message\<close> reads as (the message of an \<open>Error\<close>).
\<close>

datatype thrown = NullOrUndefined | Thrown error

text \<open>
  The host of the action: what loading a renderer and waiting for a preload give, what
  \<open>renderCell\<close> of a renderer API does to the output node (it throws, or leaves
  children), the \<open>TypeError\<close> of a call of a method on \<open>undefined\<close>, and the
  \<open>TypeError\<close> of reading a property of \<open>null\<close> or \<open>undefined\<close>.
\<close>

record 'api RenderHost =
  loadRenderer :: "string \<Rightarrow> 'api awaited"
  waitForPreload :: "string \<Rightarrow> 'api awaited"
  renderCell :: "'api \<Rightarrow> string \<Rightarrow> output_content \<Rightarrow> thrown + node list"
  undefinedTypeError :: error
  propertyTypeError :: error

fun isError :: "'api awaited \<Rightarrow> bool" where
  "isError (IsError e) = True"
| "isError (Value v) = False"

fun errorsOf :: "'api awaited list \<Rightarrow> thrown list" where
  "errorsOf [] = []"
| "errorsOf (IsError e # rest) = Thrown e # errorsOf rest"
| "errorsOf (Value v # rest) = errorsOf rest"

text \<open>
  The list items of \<open>showPreloadErrors\<close>, one per error, each with the message of its
  error. Reading the message of \<open>null\<close> or \<open>undefined\<close> throws.
\<close>

fun errorItems :: "error \<Rightarrow> thrown list \<Rightarrow> error + node list" where
  "errorItems typeError [] = Inr []"
| "errorItems typeError (NullOrUndefined # rest) = Inl typeError"
| "errorItems typeError (Thrown result # rest) =
     (case errorItems typeError rest of
        Inl e \<Rightarrow> Inl e
      | Inr items \<Rightarrow> Inr (Element ''li'' [Text (message result)] # items))"

definition showPreloadErrors ::
  "error \<Rightarrow> output_node \<Rightarrow> thrown list \<Rightarrow> error + output_node" where
  "showPreloadErrors typeError outputNode errors =
     (case errorItems typeError errors of
        Inl e \<Rightarrow> Inl e
      | Inr items \<Rightarrow>
          Inr (outputNode\<lparr>children := [Text ''Error loading preloads:'', Element ''ul'' items]\<rparr>))"

definition preloadsAndErrors :: "'api RenderHost \<Rightarrow> html_message \<Rightarrow> 'api awaited list" where
  "preloadsAndErrors host data =
     (case rendererId data of
        Some rid \<Rightarrow> if rid \<noteq> [] then loadRenderer host rid else Value None
      | None \<Rightarrow> Value None)
     # map (waitForPreload host) (requiredPreloads data)"

text \<open>
  The output node as the action leaves it before it appends it to the document, or the
  error the action throws. What \<open>renderCell\<close> throws is caught and shown; an error
  thrown while it is shown is not caught.
\<close>

definition renderOutputNode ::
  "'api RenderHost \<Rightarrow> html_message \<Rightarrow> error + output_node" where
  "renderOutputNode host data =
     (let outputNode = \<lparr>node_id = outputId data, children = []\<rparr>;
          loaded = preloadsAndErrors host data
      in case content data of
           ContentHtml htmlContent \<Rightarrow> Inr (outputNode\<lparr>children := [RawHtml htmlContent]\<rparr>)
         | ContentOther mimeType \<Rightarrow>
             if list_ex isError loaded
             then showPreloadErrors (propertyTypeError host) outputNode (errorsOf loaded)
             else (case loaded of
                     Value (Some rendererApi) # rest \<Rightarrow>
                       (case renderCell host rendererApi (outputId data) (content data) of
                          Inr rendered \<Rightarrow> Inr (outputNode\<lparr>children := rendered\<rparr>)
                        | Inl e \<Rightarrow> showPreloadErrors (propertyTypeError host) outputNode [e])
                   | other \<Rightarrow>
                       showPreloadErrors (propertyTypeError host) outputNode
                         [Thrown (undefinedTypeError host)]))"

definition appendOutput :: "string \<Rightarrow> output_node \<Rightarrow> document \<Rightarrow> document" where
  "appendOutput cell outputNode doc =
     (if map_of doc cell = None then doc @ [(cell, [outputNode])]
      else map (\<lambda>(key, nodes). if key = cell then (key, nodes @ [outputNode]) else (key, nodes))
             doc)"

text \<open>
  The action that the handler of an \<open>html\<close> message enqueues: \<open>Inl\<close> is the error its
  promise is rejected with, \<open>Inr\<close> the document it leaves. \<open>state_cancelled\<close> is what
  \<open>state.cancelled\<close> reads once the preloads have been awaited. For the first action of
  a record \<open>enqueue\<close> passes a new object \<open>{ cancelled: false }\<close> as the state, which
  nothing sets afterwards; for a later action the state is the record.
\<close>

definition htmlAction ::
  "'api RenderHost \<Rightarrow> html_message \<Rightarrow> bool \<Rightarrow> document \<Rightarrow> error + document" where
  "htmlAction host data state_cancelled doc =
     (if state_cancelled then Inr doc
      else (case renderOutputNode host data of
              Inl e \<Rightarrow> Inl e
            | Inr outputNode \<Rightarrow> Inr (appendOutput (cellId data) outputNode doc)))"

text \<open>Example values: a host whose preload is not ready, and two messages that need it.\<close>

definition exampleRenderHost :: "nat RenderHost" where
  "exampleRenderHost =
     \<lparr>loadRenderer = (\<lambda>rid. if rid = ''renderer'' then Value (Some 0)
                            else IsError (Error ''Could not find renderer'')),
      waitForPreload = (\<lambda>uri. IsError (Error (''Preload not ready: '' @ uri))),
      renderCell = (\<lambda>api ident c. Inl (Thrown (Error ''render failed''))),
      undefinedTypeError = Error ''Cannot read property renderCell of undefined'',
      propertyTypeError = Error ''Cannot read property message of null''\<rparr>"

definition exampleHtmlMessage :: html_message where
  "exampleHtmlMessage =
     \<lparr>outputId = ''output1'', cellId = ''cell1'', rendererId = None,
      requiredPreloads = [''preload.js''], content = ContentHtml ''<b>text</b>''\<rparr>"

definition exampleRenderMessage :: html_message where
  "exampleRenderMessage =
     \<lparr>outputId = ''output3'', cellId = ''cell1'', rendererId = Some ''renderer'',
      requiredPreloads = [], content = ContentOther ''application/json''\<rparr>"

definition exampleMimeMessage :: html_message where
  "exampleMimeMessage =
     \<lparr>outputId = ''output2'', cellId = ''cell1'', rendererId = Some ''missing'',
      requiredPreloads = [''preload.js''], content = ContentOther ''application/json''\<rparr>"

section \<open>Properties of the editor override service\<close>

lemma mset_insort_cmp: "mset (insort_cmp cmp x xs) = add_mset x (mset xs)"
  by (induction xs) simp_all

lemma mset_sort_cmp: "mset (sort_cmp cmp xs) = mset xs"
  unfolding sort_cmp_def by (induction xs) (simp_all add: mset_insort_cmp)

lemma sorted_insort_cmp:
  "sorted_wrt (\<lambda>a b. f a \<ge> f b) xs \<Longrightarrow>
   sorted_wrt (\<lambda>a b. f a \<ge> f b) (insort_cmp (\<lambda>a b. f b - f a) x xs)"
proof (induction xs)
  case Nil
  then show ?case by simp
next
  case (Cons y ys)
  have mem: "set (insort_cmp (\<lambda>a b. f b - f a) x ys) = insert x (set ys)"
    using mset_insort_cmp [of "\<lambda>a b. f b - f a" x ys]
    by (metis set_mset_add_mset_insert set_mset_mset)
  show ?case
  proof (cases "f y - f x \<le> (0::int)")
    case True
    with Cons.prems show ?thesis by auto
  next
    case False
    with Cons show ?thesis by (auto simp: mem)
  qed
qed

lemma sorted_sort_cmp:
  "sorted_wrt (\<lambda>a b. f a \<ge> f b) (sort_cmp (\<lambda>a b. f b - f a) xs)"
  unfolding sort_cmp_def by (induction xs) (simp_all add: sorted_insort_cmp)

lemma findMatchingContributions_sorted:
  "sorted_wrt (\<lambda>a b. priorityToRank I (priority (editorInfo a))
                     \<ge> priorityToRank I (priority (editorInfo b)))
     (findMatchingContributions I svc res)"
  unfolding findMatchingContributions_def Let_def by (rule sorted_sort_cmp)

lemma find_Some_iff_ex: "(find P xs \<noteq> None) = (\<exists>x\<in>set xs. P x)"
  by (auto simp: find_None_iff)

lemma registrations_member:
  "(key, cp) \<in> set (registrations svc) \<Longrightarrow> cp \<in> set (allContributions svc)"
  unfolding registrations_def allContributions_def by force

lemma contributions_as_registrations:
  "concat (map (\<lambda>(key, cps). filter (\<lambda>cp. P key cp) cps) kvs)
   = map snd (filter (\<lambda>(key, cp). P key cp) (concat (map (\<lambda>(key, cps). map (Pair key) cps) kvs)))"
  by (induction kvs) (auto simp: filter_map comp_def)

lemma named_by_setting:
  assumes "cp \<in> set (allContributions svc)"
  shows "(find (\<lambda>setting. assoc_viewType setting = info_id (editorInfo cp))
            (getAssociationsForResource I svc res) \<noteq> None)
         = (\<exists>a\<in>set (getAllUserAssociations svc). filenamePattern a \<noteq> []
              \<and> globMatchesResource I (GlobString (filenamePattern a)) res
              \<and> assoc_viewType a = info_id (editorInfo cp))"
proof -
  have "\<And>a. assoc_viewType a = info_id (editorInfo cp) \<Longrightarrow>
          \<exists>c\<in>set (allContributions svc). info_id (editorInfo c) = assoc_viewType a"
    using assms by auto
  then show ?thesis
    unfolding getAssociationsForResource_def find_Some_iff_ex Let_def
    by (simp add: Bex_def) blast
qed

text \<open>
  Claim C4. For every resource, \<open>getEditorIds\<close> returns the ids of a list of contribution
  points that holds exactly the registered contribution points (with their
  multiplicity) whose glob pattern matches the resource or whose id is the view type of
  a user association matching the resource (an association with a non-empty pattern that
  the glob matcher accepts), and that list is ordered by non-increasing priority rank.
\<close>

theorem getEditorIds_exact:
  "\<exists>cps. getEditorIds I svc res = map (\<lambda>c. info_id (editorInfo c)) cps
     \<and> mset cps = mset (map snd (filter (\<lambda>(key, cp). globMatchesResource I key res
            \<or> (\<exists>a\<in>set (getAllUserAssociations svc). filenamePattern a \<noteq> []
                 \<and> globMatchesResource I (GlobString (filenamePattern a)) res
                 \<and> assoc_viewType a = info_id (editorInfo cp))) (registrations svc)))
     \<and> sorted_wrt (\<lambda>a b. priorityToRank I (priority (editorInfo a))
                          \<ge> priorityToRank I (priority (editorInfo b))) cps"
proof -
  let ?rank = "\<lambda>c. priorityToRank I (priority (editorInfo c))"
  let ?P = "\<lambda>key cp. find (\<lambda>setting. assoc_viewType setting = info_id (editorInfo cp))
                      (getAssociationsForResource I svc res) \<noteq> None
                    \<or> globMatchesResource I key res"
  let ?Q = "\<lambda>(key, cp). globMatchesResource I key res
            \<or> (\<exists>a\<in>set (getAllUserAssociations svc). filenamePattern a \<noteq> []
                 \<and> globMatchesResource I (GlobString (filenamePattern a)) res
                 \<and> assoc_viewType a = info_id (editorInfo cp))"
  have same: "filter (\<lambda>(key, cp). ?P key cp) (registrations svc) = filter ?Q (registrations svc)"
  proof (rule filter_cong)
    fix x assume mem: "x \<in> set (registrations svc)"
    obtain key cp where x: "x = (key, cp)" by (cases x)
    with mem have "cp \<in> set (allContributions svc)"
      using registrations_member by blast
    with x show "(case x of (key, cp) \<Rightarrow> ?P key cp) = ?Q x"
      using named_by_setting [of cp svc I res] by auto
  qed simp
  have fm: "findMatchingContributions I svc res
      = sort_cmp (\<lambda>a b. ?rank b - ?rank a) (map snd (filter ?Q (registrations svc)))"
    unfolding findMatchingContributions_def Let_def
    using contributions_as_registrations [of ?P "contributionPoints svc"] same
    by (simp add: registrations_def)
  show ?thesis
  proof (intro exI conjI)
    show "getEditorIds I svc res
        = map (\<lambda>c. info_id (editorInfo c)) (findMatchingContributions I svc res)"
      by (simp add: getEditorIds_def)
    show "mset (findMatchingContributions I svc res)
        = mset (map snd (filter ?Q (registrations svc)))"
      by (simp only: fm mset_sort_cmp)
    show "sorted_wrt (\<lambda>a b. ?rank a \<ge> ?rank b) (findMatchingContributions I svc res)"
      unfolding fm by (rule sorted_sort_cmp)
  qed
qed

theorem getEditorIds_exact_witness:
  "getEditorIds exampleImports exampleService ''notes.txt'' = [''editorA'', ''editorB'']
   \<and> map (\<lambda>(key, cp). info_id (editorInfo cp)) (registrations exampleService)
       = [''editorA'', ''editorB'']"
  using getEditorIds_exact [of exampleImports exampleService "''notes.txt''"]
  by (simp add: getEditorIds_def findMatchingContributions_def getAssociationsForResource_def
      getAllUserAssociations_def allContributions_def registrations_def exampleService_def
      exampleImports_def exampleContribution_def sort_cmp_def)

lemma first_filter_None: "first (filter P xs) = None \<Longrightarrow> \<forall>q\<in>set xs. \<not> P q"
  by (induction xs) (auto split: if_splits)

lemma first_filter_sorted:
  "sorted_wrt (\<lambda>a b. f a \<ge> f b) xs \<Longrightarrow> first (filter P xs) = Some p \<Longrightarrow>
   p \<in> set xs \<and> P p \<and> (\<forall>q\<in>set xs. P q \<longrightarrow> f q \<le> (f p :: int))"
  by (induction xs) (auto split: if_splits)

text \<open>
  Claim C5, as amended. With no override (\<open>undefined\<close> or the empty string),
  \<open>getContributionPoint\<close> returns the first matching contribution that has the selected
  view type and supports the resource. The user associations taken into account are those
  whose non-empty pattern matches the resource and whose view type is the id of a
  registered contribution. Let \<open>p\<close> be the first of the matching contributions of at
  least builtin rank whose id is not the default text editor's; no such contribution
  has a higher rank. The selected view type is the id of \<open>p\<close> if \<open>p\<close> is exclusive;
  otherwise the view type of the first such association, if it is not empty; otherwise
  the id of \<open>p\<close>; and nothing is selected when neither exists.
\<close>

theorem getContributionPoint_precedence:
  assumes "ovr = None \<or> ovr = Some []"
  shows "fst (getContributionPoint I svc res ovr)
           = findMatchingContribPoint res (findMatchingContributions I svc res)
               (selectedViewType I svc res)
     \<and> getAssociationsForResource I svc res
           = filter (\<lambda>a. filenamePattern a \<noteq> []
                 \<and> globMatchesResource I (GlobString (filenamePattern a)) res
                 \<and> (\<exists>c\<in>set (allContributions svc). info_id (editorInfo c) = assoc_viewType a))
               (getAllUserAssociations svc)
     \<and> (case first (possibleContributionPoints I svc res) of
          Some p \<Rightarrow>
            p \<in> set (findMatchingContributions I svc res)
            \<and> priorityToRank I (builtin I) \<le> priorityToRank I (priority (editorInfo p))
            \<and> info_id (editorInfo p) \<noteq> DEFAULT_EDITOR_ASSOCIATION_id I
            \<and> (\<forall>q\<in>set (findMatchingContributions I svc res).
                 priorityToRank I (builtin I) \<le> priorityToRank I (priority (editorInfo q))
                 \<and> info_id (editorInfo q) \<noteq> DEFAULT_EDITOR_ASSOCIATION_id I
                 \<longrightarrow> priorityToRank I (priority (editorInfo q))
                       \<le> priorityToRank I (priority (editorInfo p)))
            \<and> selectedViewType I svc res
                = (if priority (editorInfo p) = exclusive I then Some (info_id (editorInfo p))
                   else (case first (getAssociationsForResource I svc res) of
                           Some a \<Rightarrow> if assoc_viewType a \<noteq> [] then Some (assoc_viewType a)
                                     else Some (info_id (editorInfo p))
                         | None \<Rightarrow> Some (info_id (editorInfo p))))
        | None \<Rightarrow>
            (\<forall>q\<in>set (findMatchingContributions I svc res).
               \<not> (priorityToRank I (builtin I) \<le> priorityToRank I (priority (editorInfo q))
                  \<and> info_id (editorInfo q) \<noteq> DEFAULT_EDITOR_ASSOCIATION_id I))
            \<and> selectedViewType I svc res
                = (case first (getAssociationsForResource I svc res) of
                     Some a \<Rightarrow> if assoc_viewType a \<noteq> [] then Some (assoc_viewType a) else None
                   | None \<Rightarrow> None))"
proof (intro conjI)
  show "fst (getContributionPoint I svc res ovr)
           = findMatchingContribPoint res (findMatchingContributions I svc res)
               (selectedViewType I svc res)"
    using assms by (auto simp: getContributionPoint_def Let_def)
  show "getAssociationsForResource I svc res
           = filter (\<lambda>a. filenamePattern a \<noteq> []
                 \<and> globMatchesResource I (GlobString (filenamePattern a)) res
                 \<and> (\<exists>c\<in>set (allContributions svc). info_id (editorInfo c) = assoc_viewType a))
               (getAllUserAssociations svc)"
    unfolding getAssociationsForResource_def Let_def filter_filter
    by (rule filter_cong) (auto simp: find_None_iff)
  show "case first (possibleContributionPoints I svc res) of
          Some p \<Rightarrow>
            p \<in> set (findMatchingContributions I svc res)
            \<and> priorityToRank I (builtin I) \<le> priorityToRank I (priority (editorInfo p))
            \<and> info_id (editorInfo p) \<noteq> DEFAULT_EDITOR_ASSOCIATION_id I
            \<and> (\<forall>q\<in>set (findMatchingContributions I svc res).
                 priorityToRank I (builtin I) \<le> priorityToRank I (priority (editorInfo q))
                 \<and> info_id (editorInfo q) \<noteq> DEFAULT_EDITOR_ASSOCIATION_id I
                 \<longrightarrow> priorityToRank I (priority (editorInfo q))
                       \<le> priorityToRank I (priority (editorInfo p)))
            \<and> selectedViewType I svc res
                = (if priority (editorInfo p) = exclusive I then Some (info_id (editorInfo p))
                   else (case first (getAssociationsForResource I svc res) of
                           Some a \<Rightarrow> if assoc_viewType a \<noteq> [] then Some (assoc_viewType a)
                                     else Some (info_id (editorInfo p))
                         | None \<Rightarrow> Some (info_id (editorInfo p))))
        | None \<Rightarrow>
            (\<forall>q\<in>set (findMatchingContributions I svc res).
               \<not> (priorityToRank I (builtin I) \<le> priorityToRank I (priority (editorInfo q))
                  \<and> info_id (editorInfo q) \<noteq> DEFAULT_EDITOR_ASSOCIATION_id I))
            \<and> selectedViewType I svc res
                = (case first (getAssociationsForResource I svc res) of
                     Some a \<Rightarrow> if assoc_viewType a \<noteq> [] then Some (assoc_viewType a) else None
                   | None \<Rightarrow> None)"
  proof (cases "first (possibleContributionPoints I svc res)")
    case None
    from first_filter_None [OF None [unfolded possibleContributionPoints_def]]
    show ?thesis using None
      by (auto simp: selectedViewType_def Let_def split: option.splits)
  next
    case (Some p)
    from first_filter_sorted [OF findMatchingContributions_sorted
        Some [unfolded possibleContributionPoints_def]]
    show ?thesis using Some
      by (auto simp: selectedViewType_def Let_def split: option.splits)
  qed
qed

theorem getContributionPoint_precedence_witness:
  "map_option (\<lambda>c. info_id (editorInfo c))
      (fst (getContributionPoint exampleImports exampleService ''notes.txt'' None))
     = Some ''editorB''
   \<and> map assoc_viewType (getAssociationsForResource exampleImports exampleService ''notes.txt'')
     = [''editorB'']
   \<and> map_option (\<lambda>c. info_id (editorInfo c))
        (first (possibleContributionPoints exampleImports exampleService ''notes.txt''))
     = Some ''editorA''
   \<and> selectedViewType exampleImports exampleService ''notes.txt'' = Some ''editorB''"
  using getContributionPoint_precedence [of None exampleImports exampleService "''notes.txt''"]
  by (simp add: findMatchingContribPoint_def selectedViewType_def
      possibleContributionPoints_def findMatchingContributions_def
      getAssociationsForResource_def getAllUserAssociations_def allContributions_def
      exampleService_def exampleImports_def exampleContribution_def sort_cmp_def)

text \<open>
  The precedence as the specification words it differs from the code: the first user
  association whose pattern matches \<open>notes.txt\<close> names an editor that is not registered,
  and the code passes over it.
\<close>

theorem selectedViewType_spec_counterexample:
  "selectedViewType exampleImports exampleService ''notes.txt'' = Some ''editorB''
   \<and> selectedViewType_spec exampleImports exampleService ''notes.txt'' = Some ''missingEditor''"
  by (simp add: selectedViewType_def selectedViewType_spec_def
      possibleContributionPoints_def findMatchingContributions_def
      getAssociationsForResource_def getAllUserAssociations_def allContributions_def
      exampleService_def exampleImports_def exampleContribution_def sort_cmp_def)

text \<open>
  Claim C10. Called with options whose override is \<open>EditorOverride.DISABLED\<close>,
  \<open>resolveEditorOverride\<close> rejects with an error, for every editor input, every group,
  every state of the service and every answer of the host; the service is unchanged.
\<close>

theorem resolveEditorOverride_disabled:
  assumes "override opts = Some (OverrideEnum DISABLED)"
  shows "\<exists>e. resolveEditorOverride I host svc editor (Some opts) grp = (Inl e, svc)"
  using assms by (auto simp: resolveEditorOverride_def split: sum.splits)

theorem resolveEditorOverride_disabled_witness:
  "resolveEditorOverride exampleImports exampleHost exampleService
      (EditorInput (Some ''notes.txt'') None) (Some disabledOptions) 0
    = (Inl (Error ''Calling resolve editor override when override is explicitly disabled!''),
       exampleService)"
  using resolveEditorOverride_disabled [of disabledOptions exampleImports exampleHost
      exampleService "EditorInput (Some ''notes.txt'') None" 0]
  by (simp add: resolveEditorOverride_def exampleService_def exampleHost_def
      disabledOptions_def)

section \<open>Properties of the release notes manager\<close>

lemma map_of_delete_key:
  "map_of (filter (\<lambda>(key, q). key \<noteq> v) xs) w = (if w = v then None else map_of xs w)"
  by (induction xs) auto

lemma notes_inv_new: "notes_inv newManager"
  by (simp add: notes_inv_def newManager_def)

lemma notes_inv_load:
  assumes "notes_inv m"
  shows "notes_inv (snd (loadReleaseNotes version m))"
proof (cases "versionMatch version")
  case None
  with assms show ?thesis by (simp add: loadReleaseNotes_def)
next
  case (Some pre)
  show ?thesis
  proof (cases "map_of (releaseNotesCache m) version")
    case (Some p)
    with assms \<open>versionMatch version = Some pre\<close> show ?thesis
      by (simp add: loadReleaseNotes_def)
  next
    case None
    have cached: "\<And>v p. (v, p) \<in> set (releaseNotesCache m) \<Longrightarrow>
        versionMatch v \<noteq> None \<and> p < length (fetches m) \<and> fetch_version (fetches m ! p) = v"
      using assms unfolding notes_inv_def by blast
    have pending: "\<And>p. p < length (fetches m) \<Longrightarrow> fetch_state (fetches m ! p) = Pending \<Longrightarrow>
        map_of (releaseNotesCache m) (fetch_version (fetches m ! p)) = Some p"
      using assms unfolding notes_inv_def by blast
    show ?thesis
      unfolding notes_inv_def
      using None \<open>versionMatch version = Some pre\<close>
      by (auto simp: loadReleaseNotes_def Let_def nth_append less_Suc_eq map_add_def
          dest: cached pending split: option.splits)
  qed
qed

lemma notes_inv_settle:
  assumes "notes_inv m"
  shows "notes_inv (settle ks p resp m)"
proof (cases "p < length (fetches m) \<and> fetch_state (fetches m ! p) = Pending")
  case False
  with assms show ?thesis by (auto simp: settle_def)
next
  case True
  have cached: "\<And>v q. (v, q) \<in> set (releaseNotesCache m) \<Longrightarrow>
      versionMatch v \<noteq> None \<and> q < length (fetches m) \<and> fetch_version (fetches m ! q) = v"
    using assms unfolding notes_inv_def by blast
  have pending: "\<And>q. q < length (fetches m) \<Longrightarrow> fetch_state (fetches m ! q) = Pending \<Longrightarrow>
      map_of (releaseNotesCache m) (fetch_version (fetches m ! q)) = Some q"
    using assms unfolding notes_inv_def by blast
  show ?thesis
  proof (cases "fetchReleaseNotes ks resp")
    case (Inr patched)
    with True show ?thesis
      unfolding notes_inv_def
      by (auto simp: settle_def nth_list_update dest: cached pending)
  next
    case (Inl err)
    have other: "\<And>q. q < length (fetches m) \<Longrightarrow> q \<noteq> p \<Longrightarrow>
        fetch_state (fetches m ! q) = Pending \<Longrightarrow>
        fetch_version (fetches m ! q) \<noteq> fetch_version (fetches m ! p)"
      using pending True by (metis option.inject)
    from Inl True show ?thesis
      unfolding notes_inv_def
      by (auto simp: settle_def nth_list_update map_of_delete_key dest: cached pending other)
  qed
qed

lemma notes_inv_step: "notes_inv m \<Longrightarrow> notes_inv (notes_step ks m ev)"
  by (cases ev) (simp_all add: notes_inv_load notes_inv_settle)

lemma notes_inv_foldl: "notes_inv m \<Longrightarrow> notes_inv (foldl (notes_step ks) m evs)"
  by (induction evs arbitrary: m) (simp_all add: notes_inv_step)

lemma notes_inv_run: "notes_inv (notes_run ks evs)"
  unfolding notes_run_def by (rule notes_inv_foldl [OF notes_inv_new])

lemma cached_version_matches:
  "notes_inv m \<Longrightarrow> map_of (releaseNotesCache m) version = Some p \<Longrightarrow>
   versionMatch version \<noteq> None"
  unfolding notes_inv_def by (auto dest!: map_of_SomeD)

lemma pending_is_cached:
  "notes_inv m \<Longrightarrow> q < length (fetches m) \<Longrightarrow> fetch_state (fetches m ! q) = Pending \<Longrightarrow>
   map_of (releaseNotesCache m) (fetch_version (fetches m ! q)) = Some q"
  unfolding notes_inv_def by blast

text \<open>
  Claim C3. In every state a manager can reach, a call of \<open>loadReleaseNotes\<close> for a
  version that has a promise in the cache returns that promise and leaves the manager as
  it is: no request is sent and nothing is added to the cache. At most one fetch of a
  version is pending at any time.
\<close>

theorem loadReleaseNotes_cached:
  assumes "map_of (releaseNotesCache (notes_run ks evs)) version = Some p"
  shows "loadReleaseNotes version (notes_run ks evs) = (Inr p, notes_run ks evs)
     \<and> card {q. q < length (fetches (notes_run ks evs))
              \<and> fetch_version (fetches (notes_run ks evs) ! q) = version
              \<and> fetch_state (fetches (notes_run ks evs) ! q) = Pending} \<le> 1"
proof
  from cached_version_matches [OF notes_inv_run assms]
  obtain pre where "versionMatch version = Some pre" by blast
  with assms show "loadReleaseNotes version (notes_run ks evs) = (Inr p, notes_run ks evs)"
    by (simp add: loadReleaseNotes_def)
  have "{q. q < length (fetches (notes_run ks evs))
              \<and> fetch_version (fetches (notes_run ks evs) ! q) = version
              \<and> fetch_state (fetches (notes_run ks evs) ! q) = Pending} \<subseteq> {p}"
    using pending_is_cached [OF notes_inv_run, of _ ks evs] assms by auto
  then have "card {q. q < length (fetches (notes_run ks evs))
              \<and> fetch_version (fetches (notes_run ks evs) ! q) = version
              \<and> fetch_state (fetches (notes_run ks evs) ! q) = Pending} \<le> card {p}"
    by (intro card_mono) simp_all
  then show "card {q. q < length (fetches (notes_run ks evs))
              \<and> fetch_version (fetches (notes_run ks evs) ! q) = version
              \<and> fetch_state (fetches (notes_run ks evs) ! q) = Pending} \<le> 1"
    by simp
qed

theorem loadReleaseNotes_cached_witness:
  "map_of (releaseNotesCache (notes_run exampleKeybindings [Load ''1.53.0''])) ''1.53.0'' = Some 0
   \<and> requests (notes_run exampleKeybindings [Load ''1.53.0''])
       = [''https://code.visualstudio.com/raw/v1_53.md'']
   \<and> loadReleaseNotes ''1.53.0'' (notes_run exampleKeybindings [Load ''1.53.0''])
       = (Inr 0, notes_run exampleKeybindings [Load ''1.53.0''])"
proof -
  have c: "map_of (releaseNotesCache (notes_run exampleKeybindings [Load ''1.53.0''])) ''1.53.0''
      = Some 0"
    by (simp add: notes_run_def newManager_def loadReleaseNotes_def versionMatch_def
        isDigit_def charCode_def Let_def)
  have r: "requests (notes_run exampleKeybindings [Load ''1.53.0''])
       = [''https://code.visualstudio.com/raw/v1_53.md'']"
    by (simp add: notes_run_def newManager_def loadReleaseNotes_def versionMatch_def
        isDigit_def charCode_def releaseNotesUrl_def Let_def)
  from c r loadReleaseNotes_cached [OF c] show ?thesis by simp
qed

text \<open>
  Claim C6. Let \<open>p\<close> be the pending promise that \<open>loadReleaseNotes\<close> returns for a
  version. When its request fails, or gives no text, or gives a text that does not start
  with \<open>#\<close> and a white space, the promise is rejected, the entry of the version is
  removed from the cache, and the next call for the version creates a new fetch and sends
  a new request.
\<close>

theorem loadReleaseNotes_rejected:
  assumes cached: "map_of (releaseNotesCache (notes_run ks evs)) version = Some p"
    and pending: "fetch_state (fetches (notes_run ks evs) ! p) = Pending"
    and failed: "resp = RequestFailed \<or> resp = Response None
                 \<or> (\<exists>t. resp = Response (Some t) \<and> \<not> startsWithHashSpace t)"
  shows "fst (loadReleaseNotes version (notes_run ks evs)) = Inr p
     \<and> (\<exists>e. fetch_state (fetches (settle ks p resp (notes_run ks evs)) ! p) = Rejected e)
     \<and> map_of (releaseNotesCache (settle ks p resp (notes_run ks evs))) version = None
     \<and> (\<exists>pre. versionMatch version = Some pre
           \<and> fst (loadReleaseNotes version (settle ks p resp (notes_run ks evs)))
               = Inr (length (fetches (notes_run ks evs)))
           \<and> requests (snd (loadReleaseNotes version (settle ks p resp (notes_run ks evs))))
               = requests (notes_run ks evs) @ [releaseNotesUrl pre])"
proof -
  let ?m = "notes_run ks evs"
  have inv: "notes_inv ?m" by (rule notes_inv_run)
  from cached_version_matches [OF inv cached]
  obtain pre where pre: "versionMatch version = Some pre" by blast
  have p: "p < length (fetches ?m)" and v: "fetch_version (fetches ?m ! p) = version"
    using inv cached unfolding notes_inv_def by (auto dest!: map_of_SomeD)
  from failed obtain err where err: "fetchReleaseNotes ks resp = Inl err"
    by (auto simp: fetchReleaseNotes_def)
  have s: "settle ks p resp ?m
      = ?m\<lparr>releaseNotesCache := filter (\<lambda>(key, q). key \<noteq> version) (releaseNotesCache ?m),
           fetches := (fetches ?m)[p := (fetches ?m ! p)\<lparr>fetch_state := Rejected err\<rparr>]\<rparr>"
    using p pending err v by (simp add: settle_def)
  have gone: "map_of (releaseNotesCache (settle ks p resp ?m)) version = None"
    by (simp add: s map_of_delete_key)
  show ?thesis
  proof (intro conjI)
    show "fst (loadReleaseNotes version ?m) = Inr p"
      using pre cached by (simp add: loadReleaseNotes_def)
    show "\<exists>e. fetch_state (fetches (settle ks p resp ?m) ! p) = Rejected e"
      using p by (simp add: s)
    show "map_of (releaseNotesCache (settle ks p resp ?m)) version = None"
      by (rule gone)
    show "\<exists>pre. versionMatch version = Some pre
           \<and> fst (loadReleaseNotes version (settle ks p resp ?m)) = Inr (length (fetches ?m))
           \<and> requests (snd (loadReleaseNotes version (settle ks p resp ?m)))
               = requests ?m @ [releaseNotesUrl pre]"
      using pre gone by (simp add: loadReleaseNotes_def Let_def) (simp add: s)
  qed
qed

theorem loadReleaseNotes_rejected_witness:
  "fst (loadReleaseNotes ''1.53.0'' (notes_run exampleKeybindings [Load ''1.53.0''])) = Inr 0
   \<and> fetch_state (fetches (settle exampleKeybindings 0 (Response (Some ''Not found''))
         (notes_run exampleKeybindings [Load ''1.53.0''])) ! 0)
       = Rejected (Error ''Invalid release notes'')
   \<and> requests (snd (loadReleaseNotes ''1.53.0''
         (settle exampleKeybindings 0 (Response (Some ''Not found''))
           (notes_run exampleKeybindings [Load ''1.53.0'']))))
       = [''https://code.visualstudio.com/raw/v1_53.md'',
          ''https://code.visualstudio.com/raw/v1_53.md'']"
proof -
  have m: "notes_run exampleKeybindings [Load ''1.53.0'']
      = \<lparr>releaseNotesCache = [(''1.53.0'', 0)],
         fetches = [\<lparr>fetch_version = ''1.53.0'',
                     fetch_url = ''https://code.visualstudio.com/raw/v1_53.md'',
                     fetch_state = Pending\<rparr>],
         requests = [''https://code.visualstudio.com/raw/v1_53.md''],
         lastText = None, currentReleaseNotes = None\<rparr>"
    by (simp add: notes_run_def newManager_def loadReleaseNotes_def versionMatch_def
        isDigit_def charCode_def releaseNotesUrl_def Let_def)
  have c: "map_of (releaseNotesCache (notes_run exampleKeybindings [Load ''1.53.0''])) ''1.53.0''
      = Some 0"
    by (simp add: m)
  have q: "fetch_state (fetches (notes_run exampleKeybindings [Load ''1.53.0'']) ! 0) = Pending"
    by (simp add: m)
  have f: "Response (Some ''Not found'') = RequestFailed
        \<or> Response (Some ''Not found'') = Response None
        \<or> (\<exists>t. Response (Some ''Not found'') = Response (Some t) \<and> \<not> startsWithHashSpace t)"
    by simp
  have e: "fetch_state (fetches (settle exampleKeybindings 0 (Response (Some ''Not found''))
         (notes_run exampleKeybindings [Load ''1.53.0''])) ! 0)
       = Rejected (Error ''Invalid release notes'')"
    by (simp add: m settle_def fetchReleaseNotes_def)
  have pre: "versionMatch ''1.53.0'' = Some ''1.53''"
    by (simp add: versionMatch_def isDigit_def charCode_def)
  from loadReleaseNotes_rejected [OF c q f] e pre
  show ?thesis by (simp add: m releaseNotesUrl_def)
qed

text \<open>
  Claim C9, as amended. For every version, \<open>show\<close> sends no request and leaves the
  fetches and the cache as they are; the text it renders is the built-in text of January
  2021. When rendering succeeds it is fulfilled with \<open>true\<close> and the webview holds
  the rendered built-in text; when rendering fails it is rejected with that error.
\<close>

theorem showReleaseNotes_builtin:
  "requests (snd (showReleaseNotes ks host version m)) = requests m
   \<and> fetches (snd (showReleaseNotes ks host version m)) = fetches m
   \<and> releaseNotesCache (snd (showReleaseNotes ks host version m)) = releaseNotesCache m
   \<and> lastText (snd (showReleaseNotes ks host version m)) = Some builtinReleaseNotes
   \<and> (case renderMarkdownDocument host builtinReleaseNotes of
         Inr rendered \<Rightarrow>
           fst (showReleaseNotes ks host version m) = Inr True
           \<and> map_option (\<lambda>w. body (wv_html w))
               (currentReleaseNotes (snd (showReleaseNotes ks host version m))) = Some rendered
       | Inl e \<Rightarrow>
           fst (showReleaseNotes ks host version m) = Inl e
           \<and> currentReleaseNotes (snd (showReleaseNotes ks host version m))
               = currentReleaseNotes m)"
  by (simp add: showReleaseNotes_def renderBody_def Let_def split: sum.splits option.splits)

theorem showReleaseNotes_builtin_witness:
  "fst (showReleaseNotes exampleKeybindings exampleShowHost ''1.53.0'' newManager) = Inr True
   \<and> requests (snd (showReleaseNotes exampleKeybindings exampleShowHost ''1.53.0'' newManager)) = []"
  using showReleaseNotes_builtin [of exampleKeybindings exampleShowHost "''1.53.0''" newManager]
  by (simp add: exampleShowHost_def newManager_def)

text \<open>
  On a host where rendering fails, \<open>show\<close> is rejected: it is not fulfilled with
  \<open>true\<close> for every version.
\<close>

theorem showReleaseNotes_rejects_counterexample:
  "fst (showReleaseNotes exampleKeybindings failingShowHost ''1.53.0'' newManager)
     = Inl (Error ''cannot render'')
   \<and> fst (showReleaseNotes exampleKeybindings failingShowHost ''1.53.0'' newManager) \<noteq> Inr True"
  by (simp add: showReleaseNotes_def renderBody_def failingShowHost_def exampleShowHost_def Let_def)

subsection \<open>References and their replacement\<close>








































text \<open>
  Why the pieces must be separated: in this text the closing backtick of the
  \<open>kbstyle\<close> reference starts a match of the first pattern, and the first pass takes
  the text up to the next backtick for a \<open>kb\<close> reference between backticks.
\<close>

lemma patchKeybindings_not_separated:
  "list_all (item_ok exampleKeybindings)
     [KbstyleCodeReference ''`kbstyle('' ''Alt+X'', KbReference ''kb('' ''foo.bar'',
      KbCodeReference ''`kb('' ''foo.baz'']
   \<and> \<not> separated
     [KbstyleCodeReference ''`kbstyle('' ''Alt+X'', KbReference ''kb('' ''foo.bar'',
      KbCodeReference ''`kb('' ''foo.baz'']
   \<and> patchKeybindings exampleKeybindings ''`kbstyle(Alt+X)`kb(foo.bar)`kb(foo.baz)`''
     = ''`unassigned<code title=\"foo.bar\">unassigned</code>unassigned`''"
  by (simp add: patchKeybindings_def matchReference_def startsWithIgnoreCase_def toLower_def
      charCode_def isCommandChar_def isDigit_def isNotParen_def plainChar_def kb_def kbstyle_def
      kbCode_def kbstyleCode_def codeElement_def escapeMdHtml_def labelOr_def
      exampleKeybindings_def htmlEscape_def markdownEscape_def char_of_eq_iff)




section \<open>Properties of the queue of actions\<close>

lemma outputs_invD:
  assumes "outputs_inv s"
  shows "length (owner s) = enqueued s"
    and "\<And>a. a < enqueued s \<Longrightarrow> owner s ! a < length (records s)"
    and "\<And>key r. (key, r) \<in> set (outputs s) \<Longrightarrow> r < length (records s)"
    and "\<And>r. r < length (records s) \<Longrightarrow> \<not> cancelled (records s ! r) \<Longrightarrow>
            map_of (outputs s) (record_outputId (records s ! r)) = Some r"
    and "\<And>r a. r < length (records s) \<Longrightarrow> a \<in> set (waiting (records s ! r)) \<Longrightarrow>
            a < enqueued s \<and> owner s ! a = r"
    and "\<And>r a. r < length (records s) \<Longrightarrow> running (records s ! r) = Some a \<Longrightarrow>
            a < enqueued s \<and> owner s ! a = r \<and> (\<forall>w \<in> set (waiting (records s ! r)). a < w)"
    and "\<And>r. r < length (records s) \<Longrightarrow> sorted_wrt (<) (waiting (records s ! r))"
    and "\<And>a. a < enqueued s \<Longrightarrow> \<not> cancelled (records s ! (owner s ! a)) \<Longrightarrow>
            \<not> rejected (records s ! (owner s ! a)) \<Longrightarrow>
            a \<in> completed s \<or> running (records s ! (owner s ! a)) = Some a
            \<or> a \<in> set (waiting (records s ! (owner s ! a)))"
    and "\<And>a. a < enqueued s \<Longrightarrow>
            a \<in> started s \<or> a \<in> skipped s \<or> a \<in> set (waiting (records s ! (owner s ! a)))"
  using assms unfolding outputs_inv_def by blast+

lemma outputs_invI:
  assumes "length (owner s) = enqueued s"
    and "\<And>a. a < enqueued s \<Longrightarrow> owner s ! a < length (records s)"
    and "\<And>key r. (key, r) \<in> set (outputs s) \<Longrightarrow> r < length (records s)"
    and "\<And>r. r < length (records s) \<Longrightarrow> \<not> cancelled (records s ! r) \<Longrightarrow>
            map_of (outputs s) (record_outputId (records s ! r)) = Some r"
    and "\<And>r a. r < length (records s) \<Longrightarrow> a \<in> set (waiting (records s ! r)) \<Longrightarrow>
            a < enqueued s \<and> owner s ! a = r"
    and "\<And>r a. r < length (records s) \<Longrightarrow> running (records s ! r) = Some a \<Longrightarrow>
            a < enqueued s \<and> owner s ! a = r \<and> (\<forall>w \<in> set (waiting (records s ! r)). a < w)"
    and "\<And>r. r < length (records s) \<Longrightarrow> sorted_wrt (<) (waiting (records s ! r))"
    and "\<And>a. a < enqueued s \<Longrightarrow> \<not> cancelled (records s ! (owner s ! a)) \<Longrightarrow>
            \<not> rejected (records s ! (owner s ! a)) \<Longrightarrow>
            a \<in> completed s \<or> running (records s ! (owner s ! a)) = Some a
            \<or> a \<in> set (waiting (records s ! (owner s ! a)))"
    and "\<And>a. a < enqueued s \<Longrightarrow>
            a \<in> started s \<or> a \<in> skipped s \<or> a \<in> set (waiting (records s ! (owner s ! a)))"
  shows "outputs_inv s"
  unfolding outputs_inv_def using assms by blast

lemma outputs_inv_initial: "outputs_inv initial_outputs"
  by (simp add: outputs_inv_def initial_outputs_def)

lemma outputs_inv_enqueue_new:
  assumes inv: "outputs_inv s" and None: "map_of (outputs s) oid = None"
  shows "outputs_inv (enqueue oid s)"
proof -
  note I = outputs_invD [OF inv]
  let ?n = "length (records s)"
  let ?s = "enqueue oid s"
  have recs: "records ?s = records s
      @ [\<lparr>cancelled = False, running = Some (enqueued s), rejected = False,
          waiting = [], record_outputId = oid\<rparr>]"
    and outs: "outputs ?s = outputs s @ [(oid, ?n)]"
    and enq: "enqueued ?s = Suc (enqueued s)"
    and own: "owner ?s = owner s @ [?n]"
    and comp: "completed ?s = completed s"
    and strt: "started ?s = insert (enqueued s) (started s)"
    and skip: "skipped ?s = skipped s"
    using None by (simp_all add: enqueue_def Let_def)
  have len: "length (records ?s) = Suc ?n" by (simp add: recs)
  have old: "\<And>r. r < ?n \<Longrightarrow> records ?s ! r = records s ! r"
    by (simp add: recs nth_append)
  have new: "records ?s ! ?n = \<lparr>cancelled = False, running = Some (enqueued s), rejected = False,
          waiting = [], record_outputId = oid\<rparr>"
    by (simp add: recs)
  have own_old: "\<And>a. a < enqueued s \<Longrightarrow> owner ?s ! a = owner s ! a"
    by (simp add: own nth_append I(1))
  have own_new: "owner ?s ! enqueued s = ?n"
    by (simp add: own nth_append I(1))
  show ?thesis
  proof (rule outputs_invI)
    show "length (owner ?s) = enqueued ?s" by (simp add: own enq I(1))
  next
    fix a assume "a < enqueued ?s"
    then have "a < enqueued s \<or> a = enqueued s" by (auto simp: enq)
    then show "owner ?s ! a < length (records ?s)"
      using I(2) by (auto simp: own_old own_new len less_Suc_eq)
  next
    fix key r assume "(key, r) \<in> set (outputs ?s)"
    then show "r < length (records ?s)" using I(3) by (auto simp: outs len less_Suc_eq)
  next
    fix r assume r: "r < length (records ?s)" and nc: "\<not> cancelled (records ?s ! r)"
    show "map_of (outputs ?s) (record_outputId (records ?s ! r)) = Some r"
    proof (cases "r = ?n")
      case True
      then show ?thesis using None by (simp add: new outs map_add_def)
    next
      case False
      with r have lt: "r < ?n" by (simp add: len)
      with nc have "map_of (outputs s) (record_outputId (records s ! r)) = Some r"
        using I(4) by (simp add: old)
      then show ?thesis using lt by (simp add: old outs map_add_def)
    qed
  next
    fix r a assume r: "r < length (records ?s)" and a: "a \<in> set (waiting (records ?s ! r))"
    show "a < enqueued ?s \<and> owner ?s ! a = r"
    proof (cases "r = ?n")
      case True
      with a show ?thesis by (simp add: new)
    next
      case False
      with r have lt: "r < ?n" by (simp add: len)
      with a have "a < enqueued s \<and> owner s ! a = r" using I(5) by (simp add: old)
      then show ?thesis by (simp add: enq own_old)
    qed
  next
    fix r a assume r: "r < length (records ?s)" and a: "running (records ?s ! r) = Some a"
    show "a < enqueued ?s \<and> owner ?s ! a = r \<and> (\<forall>w \<in> set (waiting (records ?s ! r)). a < w)"
    proof (cases "r = ?n")
      case True
      with a show ?thesis by (auto simp: new enq own_new)
    next
      case False
      with r have lt: "r < ?n" by (simp add: len)
      with a have "a < enqueued s \<and> owner s ! a = r
          \<and> (\<forall>w \<in> set (waiting (records s ! r)). a < w)"
        using I(6) by (simp add: old)
      then show ?thesis using lt by (simp add: enq own_old old)
    qed
  next
    fix r assume r: "r < length (records ?s)"
    show "sorted_wrt (<) (waiting (records ?s ! r))"
    proof (cases "r = ?n")
      case True
      then show ?thesis by (simp add: new)
    next
      case False
      with r have lt: "r < ?n" by (simp add: len)
      then show ?thesis using I(7) by (simp add: old)
    qed
  next
    fix a assume a: "a < enqueued ?s"
      and nc: "\<not> cancelled (records ?s ! (owner ?s ! a))"
      and nr: "\<not> rejected (records ?s ! (owner ?s ! a))"
    show "a \<in> completed ?s \<or> running (records ?s ! (owner ?s ! a)) = Some a
            \<or> a \<in> set (waiting (records ?s ! (owner ?s ! a)))"
    proof (cases "a = enqueued s")
      case True
      then show ?thesis by (simp add: own_new new)
    next
      case False
      with a have lt: "a < enqueued s" by (simp add: enq)
      then have o: "owner s ! a < ?n" using I(2) by simp
      from lt nc nr show ?thesis
        using I(8) [OF lt] o by (simp add: own_old old comp)
    qed
  next
    fix a assume a: "a < enqueued ?s"
    show "a \<in> started ?s \<or> a \<in> skipped ?s \<or> a \<in> set (waiting (records ?s ! (owner ?s ! a)))"
    proof (cases "a = enqueued s")
      case True
      then show ?thesis by (simp add: strt)
    next
      case False
      with a have lt: "a < enqueued s" by (simp add: enq)
      then have o: "owner s ! a < ?n" using I(2) by simp
      show ?thesis using I(9) [OF lt] o lt by (auto simp: own_old old strt skip)
    qed
  qed
qed

lemma outputs_inv_enqueue_existing:
  assumes inv: "outputs_inv s" and Some: "map_of (outputs s) oid = Some r"
  shows "outputs_inv (enqueue oid s)"
proof -
  note I = outputs_invD [OF inv]
  let ?s = "enqueue oid s"
  let ?rec = "(records s ! r)\<lparr>waiting := waiting (records s ! r) @ [enqueued s]\<rparr>"
  from Some have r: "r < length (records s)" using I(3) by (auto dest: map_of_SomeD)
  have recs: "records ?s = (records s)[r := ?rec]"
    and outs: "outputs ?s = outputs s"
    and enq: "enqueued ?s = Suc (enqueued s)"
    and own: "owner ?s = owner s @ [r]"
    and comp: "completed ?s = completed s"
    and strt: "started ?s = started s"
    and skip: "skipped ?s = skipped s"
    using Some by (simp_all add: enqueue_def Let_def)
  have len: "length (records ?s) = length (records s)" by (simp add: recs)
  have nth: "\<And>q. q < length (records s) \<Longrightarrow>
      records ?s ! q = (if q = r then ?rec else records s ! q)"
    by (simp add: recs nth_list_update)
  have own_old: "\<And>a. a < enqueued s \<Longrightarrow> owner ?s ! a = owner s ! a"
    by (simp add: own nth_append I(1))
  have own_new: "owner ?s ! enqueued s = r"
    by (simp add: own nth_append I(1))
  show ?thesis
  proof (rule outputs_invI)
    show "length (owner ?s) = enqueued ?s" by (simp add: own enq I(1))
  next
    fix a assume "a < enqueued ?s"
    then have "a < enqueued s \<or> a = enqueued s" by (auto simp: enq)
    then show "owner ?s ! a < length (records ?s)"
      using I(2) r by (auto simp: own_old own_new len)
  next
    fix key q assume "(key, q) \<in> set (outputs ?s)"
    then show "q < length (records ?s)" using I(3) by (simp add: outs len)
  next
    fix q assume "q < length (records ?s)" and "\<not> cancelled (records ?s ! q)"
    then show "map_of (outputs ?s) (record_outputId (records ?s ! q)) = Some q"
      using I(4) [of q] by (simp add: len nth outs split: if_splits)
  next
    fix q a assume q: "q < length (records ?s)" and a: "a \<in> set (waiting (records ?s ! q))"
    then have "a = enqueued s \<and> q = r \<or> a \<in> set (waiting (records s ! q))"
      by (auto simp: len nth split: if_splits)
    then show "a < enqueued ?s \<and> owner ?s ! a = q"
      using I(5) [of q a] q by (auto simp: len enq own_old own_new)
  next
    fix q a assume q: "q < length (records ?s)" and a: "running (records ?s ! q) = Some a"
    then have run: "running (records s ! q) = Some a"
      by (auto simp: len nth split: if_splits)
    from q have q': "q < length (records s)" by (simp add: len)
    from I(6) [OF q' run]
    show "a < enqueued ?s \<and> owner ?s ! a = q \<and> (\<forall>w \<in> set (waiting (records ?s ! q)). a < w)"
      using q' by (auto simp: enq own_old nth)
  next
    fix q assume q: "q < length (records ?s)"
    then have q': "q < length (records s)" by (simp add: len)
    have "\<forall>w \<in> set (waiting (records s ! r)). w < enqueued s"
      using I(5) [OF r] by blast
    then show "sorted_wrt (<) (waiting (records ?s ! q))"
      using I(7) [OF q'] I(7) [OF r] q' by (auto simp: nth sorted_wrt_append)
  next
    fix a assume a: "a < enqueued ?s"
      and nc: "\<not> cancelled (records ?s ! (owner ?s ! a))"
      and nr: "\<not> rejected (records ?s ! (owner ?s ! a))"
    show "a \<in> completed ?s \<or> running (records ?s ! (owner ?s ! a)) = Some a
            \<or> a \<in> set (waiting (records ?s ! (owner ?s ! a)))"
    proof (cases "a = enqueued s")
      case True
      then show ?thesis using r by (simp add: own_new nth)
    next
      case False
      with a have lt: "a < enqueued s" by (simp add: enq)
      then have o: "owner s ! a < length (records s)" using I(2) by simp
      from lt nc nr show ?thesis
        using I(8) [OF lt] o by (auto simp: own_old nth comp split: if_splits)
    qed
  next
    fix a assume a: "a < enqueued ?s"
    show "a \<in> started ?s \<or> a \<in> skipped ?s \<or> a \<in> set (waiting (records ?s ! (owner ?s ! a)))"
    proof (cases "a = enqueued s")
      case True
      then show ?thesis using r by (simp add: own_new nth)
    next
      case False
      with a have lt: "a < enqueued s" by (simp add: enq)
      then have o: "owner s ! a < length (records s)" using I(2) by simp
      show ?thesis using I(9) [OF lt] o lt by (auto simp: own_old nth strt skip)
    qed
  qed
qed

lemma outputs_inv_enqueue: "outputs_inv s \<Longrightarrow> outputs_inv (enqueue oid s)"
  by (cases "map_of (outputs s) oid")
    (simp_all add: outputs_inv_enqueue_new outputs_inv_enqueue_existing)

lemma map_of_delete_output:
  "map_of (filter (\<lambda>(key, q). key \<noteq> k) xs) w = (if w = k then None else map_of xs w)"
  by (induction xs) auto

lemma outputs_inv_cancelOutput:
  assumes inv: "outputs_inv s"
  shows "outputs_inv (cancelOutput oid s)"
proof (cases "map_of (outputs s) oid")
  case None
  with inv show ?thesis by (simp add: cancelOutput_def)
next
  case (Some r)
  note I = outputs_invD [OF inv]
  let ?s = "cancelOutput oid s"
  let ?rec = "(records s ! r)\<lparr>cancelled := True\<rparr>"
  from Some have r: "r < length (records s)" using I(3) by (auto dest: map_of_SomeD)
  have recs: "records ?s = (records s)[r := ?rec]"
    and outs: "outputs ?s = filter (\<lambda>(key, q). key \<noteq> oid) (outputs s)"
    and enq: "enqueued ?s = enqueued s"
    and own: "owner ?s = owner s"
    and comp: "completed ?s = completed s"
    and strt: "started ?s = started s"
    and skip: "skipped ?s = skipped s"
    using Some by (simp_all add: cancelOutput_def)
  have len: "length (records ?s) = length (records s)" by (simp add: recs)
  have nth: "\<And>q. q < length (records s) \<Longrightarrow>
      records ?s ! q = (if q = r then ?rec else records s ! q)"
    by (simp add: recs nth_list_update)
  show ?thesis
  proof (rule outputs_invI)
    show "length (owner ?s) = enqueued ?s" by (simp add: own enq I(1))
  next
    fix a assume "a < enqueued ?s"
    then show "owner ?s ! a < length (records ?s)" using I(2) by (simp add: own enq len)
  next
    fix key q assume "(key, q) \<in> set (outputs ?s)"
    then show "q < length (records ?s)" using I(3) by (auto simp: outs len)
  next
    fix q assume q: "q < length (records ?s)" and nc: "\<not> cancelled (records ?s ! q)"
    then have q': "q < length (records s)" and ne: "q \<noteq> r"
      and nc': "\<not> cancelled (records s ! q)"
      by (auto simp: len nth split: if_splits)
    from I(4) [OF q' nc'] have m: "map_of (outputs s) (record_outputId (records s ! q)) = Some q" .
    with Some ne have "record_outputId (records s ! q) \<noteq> oid" by auto
    with m show "map_of (outputs ?s) (record_outputId (records ?s ! q)) = Some q"
      using q' ne by (simp add: nth outs map_of_delete_output)
  next
    fix q a assume q: "q < length (records ?s)" and a: "a \<in> set (waiting (records ?s ! q))"
    then show "a < enqueued ?s \<and> owner ?s ! a = q"
      using I(5) [of q a] by (auto simp: len nth enq own split: if_splits)
  next
    fix q a assume q: "q < length (records ?s)" and a: "running (records ?s ! q) = Some a"
    then show "a < enqueued ?s \<and> owner ?s ! a = q \<and> (\<forall>w \<in> set (waiting (records ?s ! q)). a < w)"
      using I(6) [of q a] by (auto simp: len nth enq own split: if_splits)
  next
    fix q assume q: "q < length (records ?s)"
    then show "sorted_wrt (<) (waiting (records ?s ! q))"
      using I(7) [of q] by (auto simp: len nth)
  next
    fix a assume a: "a < enqueued ?s"
      and nc: "\<not> cancelled (records ?s ! (owner ?s ! a))"
      and nr: "\<not> rejected (records ?s ! (owner ?s ! a))"
    from a have lt: "a < enqueued s" by (simp add: enq)
    then have o: "owner s ! a < length (records s)" using I(2) by simp
    from nc nr show "a \<in> completed ?s \<or> running (records ?s ! (owner ?s ! a)) = Some a
            \<or> a \<in> set (waiting (records ?s ! (owner ?s ! a)))"
      using I(8) [OF lt] o by (auto simp: own nth comp split: if_splits)
  next
    fix a assume a: "a < enqueued ?s"
    show "a \<in> started ?s \<or> a \<in> skipped ?s \<or> a \<in> set (waiting (records ?s ! (owner ?s ! a)))"
    proof -
      from a have lt: "a < enqueued s" by (simp add: enq)
      then have o: "owner s ! a < length (records s)" using I(2) by simp
      show ?thesis using I(9) [OF lt] o by (auto simp: own nth strt skip split: if_splits)
    qed
  qed
qed

lemma cancel_records_length:
  "length (foldl (\<lambda>rs r. rs[r := (rs ! r)\<lparr>cancelled := True\<rparr>]) rs vs) = length rs"
  by (induction vs arbitrary: rs) simp_all

lemma cancel_records_nth:
  "i < length rs \<Longrightarrow>
   foldl (\<lambda>rs r. rs[r := (rs ! r)\<lparr>cancelled := True\<rparr>]) rs vs ! i
     = (if i \<in> set vs then (rs ! i)\<lparr>cancelled := True\<rparr> else rs ! i)"
proof (induction vs arbitrary: rs)
  case Nil
  then show ?case by simp
next
  case (Cons v vs)
  have eq: "rs[v := (rs ! v)\<lparr>cancelled := True\<rparr>] ! i
      = (if i = v then (rs ! i)\<lparr>cancelled := True\<rparr> else rs ! i)"
    using Cons.prems by (cases "i = v") simp_all
  have "i < length (rs[v := (rs ! v)\<lparr>cancelled := True\<rparr>])"
    using Cons.prems by simp
  from Cons.IH [OF this] Cons.prems show ?case by (auto simp: eq)
qed

lemma outputs_inv_cancelAll:
  assumes inv: "outputs_inv s"
  shows "outputs_inv (cancelAll s)"
proof -
  note I = outputs_invD [OF inv]
  let ?s = "cancelAll s"
  have outs: "outputs ?s = []"
    and enq: "enqueued ?s = enqueued s"
    and own: "owner ?s = owner s"
    and comp: "completed ?s = completed s"
    and strt: "started ?s = started s"
    and skip: "skipped ?s = skipped s"
    by (simp_all add: cancelAll_def)
  have len: "length (records ?s) = length (records s)"
    by (simp add: cancelAll_def cancel_records_length)
  have nth: "\<And>q. q < length (records s) \<Longrightarrow>
      records ?s ! q = (if q \<in> set (map snd (outputs s))
         then (records s ! q)\<lparr>cancelled := True\<rparr> else records s ! q)"
    by (simp add: cancelAll_def cancel_records_nth)
  have all: "\<And>q. q < length (records s) \<Longrightarrow> cancelled (records ?s ! q)"
  proof -
    fix q assume q: "q < length (records s)"
    show "cancelled (records ?s ! q)"
    proof (cases "q \<in> set (map snd (outputs s))")
      case True
      with q show ?thesis by (simp add: nth)
    next
      case False
      have "cancelled (records s ! q)"
      proof (rule ccontr)
        assume "\<not> cancelled (records s ! q)"
        from I(4) [OF q this] have "(record_outputId (records s ! q), q) \<in> set (outputs s)"
          by (rule map_of_SomeD)
        then have "q \<in> set (map snd (outputs s))" by force
        with False show False by simp
      qed
      with q False show ?thesis by (simp add: nth)
    qed
  qed
  show ?thesis
  proof (rule outputs_invI)
    show "length (owner ?s) = enqueued ?s" by (simp add: own enq I(1))
  next
    fix a assume "a < enqueued ?s"
    then show "owner ?s ! a < length (records ?s)" using I(2) by (simp add: own enq len)
  next
    fix key q assume "(key, q) \<in> set (outputs ?s)"
    then show "q < length (records ?s)" by (simp add: outs)
  next
    fix q assume "q < length (records ?s)" and "\<not> cancelled (records ?s ! q)"
    then show "map_of (outputs ?s) (record_outputId (records ?s ! q)) = Some q"
      using all by (simp add: len)
  next
    fix q a assume q: "q < length (records ?s)" and a: "a \<in> set (waiting (records ?s ! q))"
    then show "a < enqueued ?s \<and> owner ?s ! a = q"
      using I(5) [of q a] by (auto simp: len nth enq own split: if_splits)
  next
    fix q a assume q: "q < length (records ?s)" and a: "running (records ?s ! q) = Some a"
    then show "a < enqueued ?s \<and> owner ?s ! a = q \<and> (\<forall>w \<in> set (waiting (records ?s ! q)). a < w)"
      using I(6) [of q a] by (auto simp: len nth enq own split: if_splits)
  next
    fix q assume q: "q < length (records ?s)"
    then show "sorted_wrt (<) (waiting (records ?s ! q))"
      using I(7) [of q] by (auto simp: len nth)
  next
    fix a assume a: "a < enqueued ?s"
      and nc: "\<not> cancelled (records ?s ! (owner ?s ! a))"
    from a have "owner s ! a < length (records s)" using I(2) by (simp add: enq)
    with nc show "a \<in> completed ?s \<or> running (records ?s ! (owner ?s ! a)) = Some a
            \<or> a \<in> set (waiting (records ?s ! (owner ?s ! a)))"
      using all by (simp add: own)
  next
    fix a assume a: "a < enqueued ?s"
    show "a \<in> started ?s \<or> a \<in> skipped ?s \<or> a \<in> set (waiting (records ?s ! (owner ?s ! a)))"
    proof -
      from a have lt: "a < enqueued s" by (simp add: enq)
      then have o: "owner s ! a < length (records s)" using I(2) by simp
      show ?thesis using I(9) [OF lt] o by (auto simp: own nth strt skip split: if_splits)
    qed
  qed
qed

lemma outputs_inv_actionCompletes:
  assumes inv: "outputs_inv s"
  shows "outputs_inv (actionCompletes r s)"
proof (cases "r < length (records s) \<and> running (records s ! r) \<noteq> None")
  case False
  with inv show ?thesis by (auto simp: actionCompletes_def)
next
  case True
  then obtain action where r: "r < length (records s)"
    and run: "running (records s ! r) = Some action" by auto
  note I = outputs_invD [OF inv]
  let ?s = "actionCompletes r s"
  let ?rec = "(records s ! r)\<lparr>running := None\<rparr>"
  have recs: "records ?s = (records s)[r := ?rec]"
    and outs: "outputs ?s = outputs s"
    and enq: "enqueued ?s = enqueued s"
    and own: "owner ?s = owner s"
    and comp: "completed ?s = insert action (completed s)"
    and strt: "started ?s = started s"
    and skip: "skipped ?s = skipped s"
    using r run by (simp_all add: actionCompletes_def)
  have len: "length (records ?s) = length (records s)" by (simp add: recs)
  have nth: "\<And>q. q < length (records s) \<Longrightarrow>
      records ?s ! q = (if q = r then ?rec else records s ! q)"
    by (simp add: recs nth_list_update)
  show ?thesis
  proof (rule outputs_invI)
    show "length (owner ?s) = enqueued ?s" by (simp add: own enq I(1))
  next
    fix a assume "a < enqueued ?s"
    then show "owner ?s ! a < length (records ?s)" using I(2) by (simp add: own enq len)
  next
    fix key q assume "(key, q) \<in> set (outputs ?s)"
    then show "q < length (records ?s)" using I(3) by (simp add: outs len)
  next
    fix q assume "q < length (records ?s)" and "\<not> cancelled (records ?s ! q)"
    then show "map_of (outputs ?s) (record_outputId (records ?s ! q)) = Some q"
      using I(4) [of q] by (simp add: len nth outs split: if_splits)
  next
    fix q a assume q: "q < length (records ?s)" and a: "a \<in> set (waiting (records ?s ! q))"
    then show "a < enqueued ?s \<and> owner ?s ! a = q"
      using I(5) [of q a] by (auto simp: len nth enq own split: if_splits)
  next
    fix q a assume q: "q < length (records ?s)" and a: "running (records ?s ! q) = Some a"
    then show "a < enqueued ?s \<and> owner ?s ! a = q \<and> (\<forall>w \<in> set (waiting (records ?s ! q)). a < w)"
      using I(6) [of q a] by (auto simp: len nth enq own split: if_splits)
  next
    fix q assume q: "q < length (records ?s)"
    then show "sorted_wrt (<) (waiting (records ?s ! q))"
      using I(7) [of q] by (auto simp: len nth)
  next
    fix a assume a: "a < enqueued ?s"
      and nc: "\<not> cancelled (records ?s ! (owner ?s ! a))"
      and nr: "\<not> rejected (records ?s ! (owner ?s ! a))"
    from a have lt: "a < enqueued s" by (simp add: enq)
    then have o: "owner s ! a < length (records s)" using I(2) by simp
    from nc nr show "a \<in> completed ?s \<or> running (records ?s ! (owner ?s ! a)) = Some a
            \<or> a \<in> set (waiting (records ?s ! (owner ?s ! a)))"
      using I(8) [OF lt] o run by (auto simp: own nth comp split: if_splits)
  next
    fix a assume a: "a < enqueued ?s"
    show "a \<in> started ?s \<or> a \<in> skipped ?s \<or> a \<in> set (waiting (records ?s ! (owner ?s ! a)))"
    proof -
      from a have lt: "a < enqueued s" by (simp add: enq)
      then have o: "owner s ! a < length (records s)" using I(2) by simp
      show ?thesis using I(9) [OF lt] o by (auto simp: own nth strt skip split: if_splits)
    qed
  qed
qed

lemma outputs_inv_actionThrows:
  assumes inv: "outputs_inv s"
  shows "outputs_inv (actionThrows r s)"
proof (cases "r < length (records s) \<and> running (records s ! r) \<noteq> None")
  case False
  with inv show ?thesis by (auto simp: actionThrows_def)
next
  case True
  then obtain action where r: "r < length (records s)"
    and run: "running (records s ! r) = Some action" by auto
  note I = outputs_invD [OF inv]
  let ?s = "actionThrows r s"
  let ?rec = "(records s ! r)\<lparr>running := None, rejected := True\<rparr>"
  have recs: "records ?s = (records s)[r := ?rec]"
    and outs: "outputs ?s = outputs s"
    and enq: "enqueued ?s = enqueued s"
    and own: "owner ?s = owner s"
    and comp: "completed ?s = completed s"
    and strt: "started ?s = started s"
    and skip: "skipped ?s = skipped s"
    using r run by (simp_all add: actionThrows_def)
  have len: "length (records ?s) = length (records s)" by (simp add: recs)
  have nth: "\<And>q. q < length (records s) \<Longrightarrow>
      records ?s ! q = (if q = r then ?rec else records s ! q)"
    by (simp add: recs nth_list_update)
  show ?thesis
  proof (rule outputs_invI)
    show "length (owner ?s) = enqueued ?s" by (simp add: own enq I(1))
  next
    fix a assume "a < enqueued ?s"
    then show "owner ?s ! a < length (records ?s)" using I(2) by (simp add: own enq len)
  next
    fix key q assume "(key, q) \<in> set (outputs ?s)"
    then show "q < length (records ?s)" using I(3) by (simp add: outs len)
  next
    fix q assume "q < length (records ?s)" and "\<not> cancelled (records ?s ! q)"
    then show "map_of (outputs ?s) (record_outputId (records ?s ! q)) = Some q"
      using I(4) [of q] by (simp add: len nth outs split: if_splits)
  next
    fix q a assume q: "q < length (records ?s)" and a: "a \<in> set (waiting (records ?s ! q))"
    then show "a < enqueued ?s \<and> owner ?s ! a = q"
      using I(5) [of q a] by (auto simp: len nth enq own split: if_splits)
  next
    fix q a assume q: "q < length (records ?s)" and a: "running (records ?s ! q) = Some a"
    then show "a < enqueued ?s \<and> owner ?s ! a = q \<and> (\<forall>w \<in> set (waiting (records ?s ! q)). a < w)"
      using I(6) [of q a] by (auto simp: len nth enq own split: if_splits)
  next
    fix q assume q: "q < length (records ?s)"
    then show "sorted_wrt (<) (waiting (records ?s ! q))"
      using I(7) [of q] by (auto simp: len nth)
  next
    fix a assume a: "a < enqueued ?s"
      and nc: "\<not> cancelled (records ?s ! (owner ?s ! a))"
      and nr: "\<not> rejected (records ?s ! (owner ?s ! a))"
    from a have lt: "a < enqueued s" by (simp add: enq)
    then have o: "owner s ! a < length (records s)" using I(2) by simp
    from nc nr show "a \<in> completed ?s \<or> running (records ?s ! (owner ?s ! a)) = Some a
            \<or> a \<in> set (waiting (records ?s ! (owner ?s ! a)))"
      using I(8) [OF lt] o by (auto simp: own nth comp split: if_splits)
  next
    fix a assume a: "a < enqueued ?s"
    show "a \<in> started ?s \<or> a \<in> skipped ?s \<or> a \<in> set (waiting (records ?s ! (owner ?s ! a)))"
    proof -
      from a have lt: "a < enqueued s" by (simp add: enq)
      then have o: "owner s ! a < length (records s)" using I(2) by simp
      show ?thesis using I(9) [OF lt] o by (auto simp: own nth strt skip split: if_splits)
    qed
  qed
qed

lemma outputs_inv_callbackRuns:
  assumes inv: "outputs_inv s"
  shows "outputs_inv (callbackRuns r s)"
proof (cases "r < length (records s) \<and> running (records s ! r) = None
    \<and> \<not> rejected (records s ! r) \<and> waiting (records s ! r) \<noteq> []")
  case False
  with inv show ?thesis by (auto simp: callbackRuns_def split: list.splits)
next
  case True
  then obtain action rest where r: "r < length (records s)"
    and idle: "running (records s ! r) = None" and ok: "\<not> rejected (records s ! r)"
    and wait: "waiting (records s ! r) = action # rest"
    by (cases "waiting (records s ! r)") auto
  note I = outputs_invD [OF inv]
  let ?s = "callbackRuns r s"
  let ?rec = "if cancelled (records s ! r) then (records s ! r)\<lparr>waiting := rest\<rparr>
              else (records s ! r)\<lparr>running := Some action, waiting := rest\<rparr>"
  have recs: "records ?s = (records s)[r := ?rec]"
    and outs: "outputs ?s = outputs s"
    and enq: "enqueued ?s = enqueued s"
    and own: "owner ?s = owner s"
    and comp: "completed ?s = completed s"
    and strt: "started ?s = (if cancelled (records s ! r) then started s
                             else insert action (started s))"
    and skip: "skipped ?s = (if cancelled (records s ! r) then insert action (skipped s)
                             else skipped s)"
    using r idle ok wait by (simp_all add: callbackRuns_def)
  have len: "length (records ?s) = length (records s)" by (simp add: recs)
  have nth: "\<And>q. q < length (records s) \<Longrightarrow>
      records ?s ! q = (if q = r then ?rec else records s ! q)"
    by (simp add: recs nth_list_update)
  have act: "action < enqueued s \<and> owner s ! action = r"
    using I(5) [OF r, of action] wait by simp
  have srt: "sorted_wrt (<) (action # rest)" using I(7) [OF r] wait by simp
  show ?thesis
  proof (rule outputs_invI)
    show "length (owner ?s) = enqueued ?s" by (simp add: own enq I(1))
  next
    fix a assume "a < enqueued ?s"
    then show "owner ?s ! a < length (records ?s)" using I(2) by (simp add: own enq len)
  next
    fix key q assume "(key, q) \<in> set (outputs ?s)"
    then show "q < length (records ?s)" using I(3) by (simp add: outs len)
  next
    fix q assume "q < length (records ?s)" and "\<not> cancelled (records ?s ! q)"
    then show "map_of (outputs ?s) (record_outputId (records ?s ! q)) = Some q"
      using I(4) [of q] by (simp add: len nth outs split: if_splits)
  next
    fix q a assume q: "q < length (records ?s)" and a: "a \<in> set (waiting (records ?s ! q))"
    then have "a \<in> set (waiting (records s ! q))"
      using wait by (auto simp: len nth split: if_splits)
    then show "a < enqueued ?s \<and> owner ?s ! a = q"
      using I(5) [of q a] q by (simp add: len enq own)
  next
    fix q a assume q: "q < length (records ?s)" and a: "running (records ?s ! q) = Some a"
    show "a < enqueued ?s \<and> owner ?s ! a = q \<and> (\<forall>w \<in> set (waiting (records ?s ! q)). a < w)"
    proof (cases "q = r")
      case True
      with q a idle have "a = action" and "\<not> cancelled (records s ! r)"
        by (auto simp: len nth split: if_splits)
      then show ?thesis using True r act srt by (auto simp: nth enq own)
    next
      case False
      with q a show ?thesis using I(6) [of q a] by (auto simp: len nth enq own)
    qed
  next
    fix q assume q: "q < length (records ?s)"
    then show "sorted_wrt (<) (waiting (records ?s ! q))"
      using I(7) [of q] srt by (auto simp: len nth)
  next
    fix a assume a: "a < enqueued ?s"
      and nc: "\<not> cancelled (records ?s ! (owner ?s ! a))"
      and nr: "\<not> rejected (records ?s ! (owner ?s ! a))"
    from a have lt: "a < enqueued s" by (simp add: enq)
    then have o: "owner s ! a < length (records s)" using I(2) by simp
    from nc nr show "a \<in> completed ?s \<or> running (records ?s ! (owner ?s ! a)) = Some a
            \<or> a \<in> set (waiting (records ?s ! (owner ?s ! a)))"
      using I(8) [OF lt] o idle wait by (auto simp: own nth comp split: if_splits)
  next
    fix a assume a: "a < enqueued ?s"
    show "a \<in> started ?s \<or> a \<in> skipped ?s \<or> a \<in> set (waiting (records ?s ! (owner ?s ! a)))"
    proof -
      from a have lt: "a < enqueued s" by (simp add: enq)
      then have o: "owner s ! a < length (records s)" using I(2) by simp
      show ?thesis using I(9) [OF lt] o wait by (auto simp: own nth strt skip split: if_splits)
    qed
  qed
qed

lemma outputs_inv_step: "outputs_inv s \<Longrightarrow> outputs_inv (outputs_step s ev)"
  by (cases ev)
    (simp_all add: outputs_inv_enqueue outputs_inv_cancelOutput outputs_inv_cancelAll
      outputs_inv_actionCompletes outputs_inv_actionThrows outputs_inv_callbackRuns)

lemma outputs_inv_foldl: "outputs_inv s \<Longrightarrow> outputs_inv (foldl outputs_step s evs)"
  by (induction evs arbitrary: s) (simp_all add: outputs_inv_step)

lemma outputs_inv_run: "outputs_inv (outputs_run evs)"
  unfolding outputs_run_def by (rule outputs_inv_foldl [OF outputs_inv_initial])

lemma outputs_run_snoc: "outputs_run (evs @ [ev]) = outputs_step (outputs_run evs) ev"
  by (simp add: outputs_run_def)

lemma outputs_run_append:
  "outputs_run (evs @ later) = foldl outputs_step (outputs_run evs) later"
  by (simp add: outputs_run_def)

lemma started_step_cases:
  assumes "b \<in> started (outputs_step s ev)" and "b \<notin> started s"
  shows "(\<exists>oid. ev = Enqueue oid \<and> map_of (outputs s) oid = None
            \<and> b = enqueued s)
       \<or> (\<exists>r rest. ev = CallbackRuns r \<and> r < length (records s)
            \<and> running (records s ! r) = None \<and> \<not> rejected (records s ! r)
            \<and> \<not> cancelled (records s ! r) \<and> waiting (records s ! r) = b # rest)"
  using assms
  by (cases ev)
    (auto simp: enqueue_def cancelOutput_def cancelAll_def actionCompletes_def
      actionThrows_def callbackRuns_def Let_def split: option.splits list.splits if_splits)

lemma nth_update_at:
  "j < length xs \<Longrightarrow> xs[i := x] ! j = (if i = j then x else xs ! j)"
  by (cases "i = j") simp_all

lemma owner_step:
  assumes "outputs_inv s" and "a < enqueued s"
  shows "owner (outputs_step s ev) ! a = owner s ! a"
  using assms outputs_invD(1) [OF assms(1)]
  by (cases ev)
    (auto simp: enqueue_def cancelOutput_def cancelAll_def actionCompletes_def
      actionThrows_def callbackRuns_def Let_def nth_append split: option.splits list.splits)

lemma records_length_step: "length (records s) \<le> length (records (outputs_step s ev))"
  by (cases ev)
    (auto simp: enqueue_def cancelOutput_def cancelAll_def actionCompletes_def
      actionThrows_def callbackRuns_def Let_def cancel_records_length
      split: option.splits list.splits)

lemma record_outputId_step:
  assumes "r < length (records s)"
  shows "record_outputId (records (outputs_step s ev) ! r) = record_outputId (records s ! r)"
  using assms
  by (cases ev)
    (auto simp: enqueue_def cancelOutput_def cancelAll_def actionCompletes_def
      actionThrows_def callbackRuns_def Let_def cancel_records_nth nth_append nth_update_at
      split: option.splits list.splits)

lemma cancelled_step:
  assumes "r < length (records s)" and "cancelled (records s ! r)"
  shows "cancelled (records (outputs_step s ev) ! r)"
  using assms
  by (cases ev)
    (auto simp: enqueue_def cancelOutput_def cancelAll_def actionCompletes_def
      actionThrows_def callbackRuns_def Let_def cancel_records_nth nth_append nth_update_at
      split: option.splits list.splits)

lemma enqueued_step: "enqueued s \<le> enqueued (outputs_step s ev)"
  by (cases ev)
    (auto simp: enqueue_def cancelOutput_def cancelAll_def actionCompletes_def
      actionThrows_def callbackRuns_def Let_def split: option.splits list.splits)

text \<open>
  Claim C1. In every run of the queues: when a step makes an action \<open>b\<close> start, every
  action \<open>a\<close> that was enqueued before \<open>b\<close> for the same output id and whose record
  is not cancelled has completed. A step is a call of \<open>enqueue\<close>, \<open>cancelOutput\<close> or
  \<open>cancelAll\<close>, the end of the action a queue waits on, or the call of the next
  callback of a queue.
\<close>

theorem enqueue_in_order:
  assumes starts: "b \<in> started (outputs_step (outputs_run evs) ev)"
      "b \<notin> started (outputs_run evs)"
    and earlier: "a < b"
    and same: "action_outputId (outputs_step (outputs_run evs) ev) a
                 = action_outputId (outputs_step (outputs_run evs) ev) b"
    and live: "\<not> action_cancelled (outputs_run evs) a"
  shows "a \<in> completed (outputs_run evs)"
proof -
  let ?s = "outputs_run evs"
  have inv: "outputs_inv ?s" by (rule outputs_inv_run)
  note I = outputs_invD [OF inv]
  from started_step_cases [OF starts] show ?thesis
  proof (elim disjE exE conjE)
    fix oid
    assume new: "ev = Enqueue oid" "map_of (outputs ?s) oid = None"
      "b = enqueued ?s"
    from earlier new have a: "a < enqueued ?s" by simp
    then have ra: "owner ?s ! a < length (records ?s)" by (rule I(2))
    have "owner (outputs_step ?s ev) ! b = length (records ?s)"
      using new I(1) by (simp add: enqueue_def Let_def nth_append)
    then have idb: "action_outputId (outputs_step ?s ev) b = oid"
      using new by (simp add: action_outputId_def enqueue_def Let_def)
    have "action_outputId (outputs_step ?s ev) a = record_outputId (records ?s ! (owner ?s ! a))"
      unfolding action_outputId_def
      by (simp add: owner_step [OF inv a] record_outputId_step [OF ra])
    with same idb have "record_outputId (records ?s ! (owner ?s ! a)) = oid" by simp
    moreover from live have "\<not> cancelled (records ?s ! (owner ?s ! a))"
      by (simp add: action_cancelled_def)
    ultimately have "map_of (outputs ?s) oid = Some (owner ?s ! a)"
      using I(4) [OF ra] by auto
    with new show ?thesis by simp
  next
    fix r rest
    assume callback: "ev = CallbackRuns r" "r < length (records ?s)"
      "running (records ?s ! r) = None" "\<not> rejected (records ?s ! r)"
      "\<not> cancelled (records ?s ! r)" "waiting (records ?s ! r) = b # rest"
    from I(5) [OF callback(2), of b] callback(6)
    have b: "b < enqueued ?s" and rb: "owner ?s ! b = r" by simp_all
    from earlier b have a: "a < enqueued ?s" by simp
    then have ra: "owner ?s ! a < length (records ?s)" by (rule I(2))
    have "action_outputId (outputs_step ?s ev) a = record_outputId (records ?s ! (owner ?s ! a))"
      unfolding action_outputId_def
      by (simp add: owner_step [OF inv a] record_outputId_step [OF ra])
    moreover
    have "action_outputId (outputs_step ?s ev) b = record_outputId (records ?s ! r)"
      unfolding action_outputId_def
      by (simp add: owner_step [OF inv b] rb record_outputId_step [OF callback(2)])
    ultimately have ids: "record_outputId (records ?s ! (owner ?s ! a))
        = record_outputId (records ?s ! r)"
      using same by simp
    from live have nc: "\<not> cancelled (records ?s ! (owner ?s ! a))"
      by (simp add: action_cancelled_def)
    from I(4) [OF ra nc] have "map_of (outputs ?s) (record_outputId (records ?s ! r))
        = Some (owner ?s ! a)"
      by (simp only: ids)
    with I(4) [OF callback(2) callback(5)] have same_record: "owner ?s ! a = r"
      by (metis option.inject)
    have "sorted_wrt (<) (b # rest)" using I(7) [OF callback(2)] callback(6) by simp
    with earlier have out: "a \<notin> set (waiting (records ?s ! r))"
      unfolding callback(6) by auto
    from nc callback(4) have "a \<in> completed ?s \<or> running (records ?s ! r) = Some a
        \<or> a \<in> set (waiting (records ?s ! r))"
      using I(8) [OF a] unfolding same_record by blast
    with out callback(3) show ?thesis by simp
  qed
qed

theorem enqueue_in_order_witness:
  "1 \<in> started (outputs_step
        (outputs_run [Enqueue ''out'', Enqueue ''out'', ActionCompletes 0]) (CallbackRuns 0))
   \<and> 1 \<notin> started (outputs_run [Enqueue ''out'', Enqueue ''out'', ActionCompletes 0])
   \<and> 0 \<in> completed (outputs_run [Enqueue ''out'', Enqueue ''out'', ActionCompletes 0])"
proof -
  let ?evs = "[Enqueue ''out'', Enqueue ''out'', ActionCompletes 0]"
  have s: "outputs_run ?evs
      = \<lparr>records = [\<lparr>cancelled = False, running = None, rejected = False, waiting = [1],
                     record_outputId = ''out''\<rparr>],
         outputs = [(''out'', 0)], enqueued = 2, owner = [0, 0], started = {0},
         completed = {0}, skipped = {}\<rparr>"
    by (simp add: outputs_run_def initial_outputs_def enqueue_def actionCompletes_def Let_def)
  have s': "callbackRuns 0 (outputs_run ?evs)
      = \<lparr>records = [\<lparr>cancelled = False, running = Some 1, rejected = False, waiting = [],
                     record_outputId = ''out''\<rparr>],
         outputs = [(''out'', 0)], enqueued = 2, owner = [0, 0], started = {0, 1},
         completed = {0}, skipped = {}\<rparr>"
    by (simp add: s callbackRuns_def insert_commute)
  have h1: "1 \<in> started (outputs_step (outputs_run ?evs) (CallbackRuns 0))" by (simp add: s')
  have h2: "1 \<notin> started (outputs_run ?evs)" by (simp add: s)
  have h3: "(0::nat) < 1" by simp
  have h4: "action_outputId (outputs_step (outputs_run ?evs) (CallbackRuns 0)) 0
      = action_outputId (outputs_step (outputs_run ?evs) (CallbackRuns 0)) 1"
    by (simp add: s' action_outputId_def)
  have h5: "\<not> action_cancelled (outputs_run ?evs) 0"
    by (simp add: s action_cancelled_def)
  from h1 h2 enqueue_in_order [OF h1 h2 h3 h4 h5] show ?thesis by simp
qed

lemma never_runs_step:
  assumes inv: "outputs_inv s" and dead: "never_runs s a"
  shows "never_runs (outputs_step s ev) a"
proof -
  note I = outputs_invD [OF inv]
  from dead have a: "a < enqueued s" and ns: "a \<notin> started s"
    and c: "cancelled (records s ! (owner s ! a))"
    by (simp_all add: never_runs_def)
  from a have ra: "owner s ! a < length (records s)" by (rule I(2))
  have "a \<notin> started (outputs_step s ev)"
  proof
    assume "a \<in> started (outputs_step s ev)"
    from started_step_cases [OF this ns] show False
    proof (elim disjE exE conjE)
      fix oid assume "a = enqueued s"
      with a show False by simp
    next
      fix r rest assume r: "r < length (records s)" and nc: "\<not> cancelled (records s ! r)"
        and w: "waiting (records s ! r) = a # rest"
      from I(5) [OF r, of a] w have "owner s ! a = r" by simp
      with c nc show False by simp
    qed
  qed
  moreover have "a < enqueued (outputs_step s ev)"
    using a enqueued_step [of s ev] by simp
  moreover have "cancelled (records (outputs_step s ev) ! (owner (outputs_step s ev) ! a))"
    by (simp add: owner_step [OF inv a] cancelled_step [OF ra c])
  ultimately show ?thesis by (simp add: never_runs_def)
qed

lemma never_runs_foldl:
  "outputs_inv s \<Longrightarrow> never_runs s a \<Longrightarrow> never_runs (foldl outputs_step s later) a"
  by (induction later arbitrary: s) (simp_all add: never_runs_step outputs_inv_step)

lemma never_runs_skipped:
  assumes "outputs_inv s" and "never_runs s a"
  shows "a \<notin> started s \<and> (a \<in> skipped s \<or> a \<in> set (waiting (records s ! (owner s ! a))))"
  using assms outputs_invD(9) [OF assms(1), of a] by (auto simp: never_runs_def)

text \<open>
  Claim C2. An action that was enqueued for an output id and has not started when
  \<open>cancelOutput\<close> is called for that id never starts afterwards, whatever happens
  later: when its callback is called it is skipped, and until then it stays in the queue.
  After \<open>cancelAll\<close> the same holds of every action that was enqueued and has not
  started, for every output id.
\<close>

theorem cancelled_actions_never_run:
  assumes enq: "a < enqueued (outputs_run evs)" and ns: "a \<notin> started (outputs_run evs)"
  shows "(action_outputId (outputs_run evs) a = oid \<longrightarrow>
            a \<notin> started (outputs_run (evs @ CancelOutput oid # later))
            \<and> (a \<in> skipped (outputs_run (evs @ CancelOutput oid # later))
               \<or> a \<in> set (waiting (records (outputs_run (evs @ CancelOutput oid # later))
                     ! (owner (outputs_run (evs @ CancelOutput oid # later)) ! a)))))
       \<and> a \<notin> started (outputs_run (evs @ CancelAll # later))
       \<and> (a \<in> skipped (outputs_run (evs @ CancelAll # later))
          \<or> a \<in> set (waiting (records (outputs_run (evs @ CancelAll # later))
                ! (owner (outputs_run (evs @ CancelAll # later)) ! a))))"
proof -
  let ?s = "outputs_run evs"
  have inv: "outputs_inv ?s" by (rule outputs_inv_run)
  note I = outputs_invD [OF inv]
  from enq have ra: "owner ?s ! a < length (records ?s)" by (rule I(2))
  have one: "never_runs (cancelOutput oid ?s) a"
    if same: "action_outputId ?s a = oid"
  proof -
    have inv1: "outputs_inv (cancelOutput oid ?s)"
      using outputs_inv_step [OF inv, of "CancelOutput oid"] by simp
    have "cancelled (records (cancelOutput oid ?s) ! (owner ?s ! a))"
    proof (rule ccontr)
      assume nc: "\<not> cancelled (records (cancelOutput oid ?s) ! (owner ?s ! a))"
      have len: "owner ?s ! a < length (records (cancelOutput oid ?s))"
        using ra records_length_step [of ?s "CancelOutput oid"] by simp
      have "record_outputId (records (cancelOutput oid ?s) ! (owner ?s ! a)) = oid"
        using record_outputId_step [OF ra, of "CancelOutput oid"] same
        by (simp add: action_outputId_def)
      with outputs_invD(4) [OF inv1 len nc]
      have "map_of (outputs (cancelOutput oid ?s)) oid = Some (owner ?s ! a)" by simp
      then show False
        by (simp add: cancelOutput_def map_of_delete_output split: option.splits)
    qed
    moreover have "owner (cancelOutput oid ?s) = owner ?s"
      and "started (cancelOutput oid ?s) = started ?s"
      and "enqueued (cancelOutput oid ?s) = enqueued ?s"
      by (simp_all add: cancelOutput_def split: option.splits)
    ultimately show ?thesis using enq ns by (simp add: never_runs_def)
  qed
  have all: "never_runs (cancelAll ?s) a"
  proof -
    have inv1: "outputs_inv (cancelAll ?s)"
      using outputs_inv_step [OF inv, of CancelAll] by simp
    have "cancelled (records (cancelAll ?s) ! (owner ?s ! a))"
    proof (rule ccontr)
      assume nc: "\<not> cancelled (records (cancelAll ?s) ! (owner ?s ! a))"
      have len: "owner ?s ! a < length (records (cancelAll ?s))"
        using ra records_length_step [of ?s CancelAll] by simp
      from outputs_invD(4) [OF inv1 len nc] show False by (simp add: cancelAll_def)
    qed
    then show ?thesis using enq ns by (simp add: never_runs_def cancelAll_def)
  qed
  have run1: "outputs_run (evs @ CancelOutput oid # later)
      = foldl outputs_step (cancelOutput oid ?s) later"
    by (simp add: outputs_run_def)
  have run2: "outputs_run (evs @ CancelAll # later) = foldl outputs_step (cancelAll ?s) later"
    by (simp add: outputs_run_def)
  have inv1: "outputs_inv (cancelOutput oid ?s)"
    using outputs_inv_step [OF inv, of "CancelOutput oid"] by simp
  have inv2: "outputs_inv (cancelAll ?s)"
    using outputs_inv_step [OF inv, of CancelAll] by simp
  show ?thesis
  proof (intro conjI impI)
    assume same: "action_outputId ?s a = oid"
    from never_runs_skipped [OF outputs_inv_foldl [OF inv1] never_runs_foldl [OF inv1 one [OF same]], of later]
    show "a \<notin> started (outputs_run (evs @ CancelOutput oid # later))"
      and "a \<in> skipped (outputs_run (evs @ CancelOutput oid # later))
               \<or> a \<in> set (waiting (records (outputs_run (evs @ CancelOutput oid # later))
                     ! (owner (outputs_run (evs @ CancelOutput oid # later)) ! a)))"
      by (simp_all add: run1)
  next
    from never_runs_skipped [OF outputs_inv_foldl [OF inv2] never_runs_foldl [OF inv2 all], of later]
    show "a \<notin> started (outputs_run (evs @ CancelAll # later))"
      and "a \<in> skipped (outputs_run (evs @ CancelAll # later))
          \<or> a \<in> set (waiting (records (outputs_run (evs @ CancelAll # later))
                ! (owner (outputs_run (evs @ CancelAll # later)) ! a)))"
      by (simp_all add: run2)
  qed
qed

theorem cancelled_actions_never_run_witness:
  "1 \<notin> started (outputs_run ([Enqueue ''out'', Enqueue ''out'']
        @ CancelOutput ''out'' # [ActionCompletes 0, CallbackRuns 0]))
   \<and> 1 \<in> skipped (outputs_run ([Enqueue ''out'', Enqueue ''out'']
        @ CancelOutput ''out'' # [ActionCompletes 0, CallbackRuns 0]))
   \<and> 1 \<notin> started (outputs_run ([Enqueue ''out'', Enqueue ''out'']
        @ CancelAll # [ActionCompletes 0, CallbackRuns 0]))"
proof -
  let ?evs = "[Enqueue ''out'', Enqueue ''out'']"
  have s: "outputs_run ?evs
      = \<lparr>records = [\<lparr>cancelled = False, running = Some 0, rejected = False, waiting = [1],
                     record_outputId = ''out''\<rparr>],
         outputs = [(''out'', 0)], enqueued = 2, owner = [0, 0], started = {0},
         completed = {}, skipped = {}\<rparr>"
    by (simp add: outputs_run_def initial_outputs_def enqueue_def Let_def)
  have h1: "1 < enqueued (outputs_run ?evs)" by (simp add: s)
  have h2: "1 \<notin> started (outputs_run ?evs)" by (simp add: s)
  have h3: "action_outputId (outputs_run ?evs) 1 = ''out''"
    by (simp add: s action_outputId_def)
  have t: "skipped (outputs_run (?evs @ CancelOutput ''out'' # [ActionCompletes 0, CallbackRuns 0]))
      = {1}"
    by (simp add: outputs_run_def initial_outputs_def enqueue_def cancelOutput_def
        actionCompletes_def callbackRuns_def Let_def)
  from cancelled_actions_never_run [OF h1 h2, of "''out''" "[ActionCompletes 0, CallbackRuns 0]"] h3 t
  show ?thesis by simp
qed

section \<open>Properties of the action of an html message\<close>

lemma errorItems_errors:
  "errorItems typeError (errorsOf loaded)
     = Inr (map (\<lambda>e. Element ''li'' [Text (message e)]) [e. IsError e \<leftarrow> loaded])"
  by (induction loaded rule: errorsOf.induct) simp_all

text \<open>
  Claim C8, as amended. Let an \<open>html\<close> message be handled and let \<open>state.cancelled\<close>
  read false once the preloads have been awaited. If the content is of type \<open>Html\<close>,
  the output node holds the markup, whatever loading gave. If the content is of another
  type and loading the renderer or a required preload gave an \<open>Error\<close>, the node holds
  the text \<open>Error loading preloads:\<close> and a list with one item per error, each with
  the message of its error, in the order of loading. If the content is of another type,
  nothing gave an error and \<open>renderCell\<close> throws a value other than \<open>null\<close> and
  \<open>undefined\<close>, the node holds the same text and a list with the message of that value.
  In each case the action appends the node to the cell and does not fail.
\<close>

theorem html_errors_displayed:
  "(content data = ContentHtml htmlContent \<longrightarrow>
      htmlAction host data False doc
        = Inr (appendOutput (cellId data)
                 \<lparr>node_id = outputId data, children = [RawHtml htmlContent]\<rparr> doc))
   \<and> (content data = ContentOther mimeType
        \<and> list_ex isError (preloadsAndErrors host data) \<longrightarrow>
      htmlAction host data False doc
        = Inr (appendOutput (cellId data)
                 \<lparr>node_id = outputId data,
                  children =
                    [Text ''Error loading preloads:'',
                     Element ''ul'' (map (\<lambda>e. Element ''li'' [Text (message e)])
                       [e. IsError e \<leftarrow> preloadsAndErrors host data])]\<rparr> doc))
   \<and> (content data = ContentOther mimeType
        \<and> preloadsAndErrors host data = Value (Some rendererApi) # rest
        \<and> \<not> list_ex isError rest
        \<and> renderCell host rendererApi (outputId data) (content data) = Inl (Thrown e) \<longrightarrow>
      htmlAction host data False doc
        = Inr (appendOutput (cellId data)
                 \<lparr>node_id = outputId data,
                  children =
                    [Text ''Error loading preloads:'',
                     Element ''ul'' [Element ''li'' [Text (message e)]]]\<rparr> doc))"
  by (auto simp: htmlAction_def renderOutputNode_def showPreloadErrors_def Let_def
      errorItems_errors)

theorem html_errors_displayed_witness:
  "htmlAction exampleRenderHost exampleHtmlMessage False []
     = Inr [(''cell1'', [\<lparr>node_id = ''output1'', children = [RawHtml ''<b>text</b>'']\<rparr>])]
   \<and> htmlAction exampleRenderHost exampleMimeMessage False []
     = Inr [(''cell1'',
         [\<lparr>node_id = ''output2'',
           children =
             [Text ''Error loading preloads:'',
              Element ''ul'' [Element ''li'' [Text ''Could not find renderer''],
                             Element ''li'' [Text ''Preload not ready: preload.js'']]]\<rparr>])]
   \<and> htmlAction exampleRenderHost exampleRenderMessage False []
     = Inr [(''cell1'',
         [\<lparr>node_id = ''output3'',
           children =
             [Text ''Error loading preloads:'',
              Element ''ul'' [Element ''li'' [Text ''render failed'']]]\<rparr>])]"
  using html_errors_displayed [of exampleHtmlMessage "''<b>text</b>''" exampleRenderHost "[]"]
    html_errors_displayed [of exampleMimeMessage _ exampleRenderHost "[]" "''application/json''"]
    html_errors_displayed [of exampleRenderMessage _ exampleRenderHost "[]"
      "''application/json''" 0 "[]" "Error ''render failed''"]
  by (simp add: exampleHtmlMessage_def exampleMimeMessage_def exampleRenderMessage_def
      exampleRenderHost_def preloadsAndErrors_def appendOutput_def)

text \<open>
  A required preload gave an error in both cases: for content of type \<open>Html\<close> the
  markup is shown and not the error; and an action that reads \<open>state.cancelled\<close> as set
  leaves the document as it is.
\<close>

theorem html_errors_not_displayed_counterexample:
  "list_ex isError (preloadsAndErrors exampleRenderHost exampleHtmlMessage)
   \<and> htmlAction exampleRenderHost exampleHtmlMessage False []
       = Inr [(''cell1'', [\<lparr>node_id = ''output1'', children = [RawHtml ''<b>text</b>'']\<rparr>])]
   \<and> list_ex isError (preloadsAndErrors exampleRenderHost exampleMimeMessage)
   \<and> htmlAction exampleRenderHost exampleMimeMessage True [] = Inr []"
  by (simp add: htmlAction_def renderOutputNode_def preloadsAndErrors_def appendOutput_def
      exampleHtmlMessage_def exampleMimeMessage_def exampleRenderHost_def)

end
